theory Spec2Isabelle
  imports Complex_Main
begin

section \<open>JavaScript strings\<close>

text \<open>
  A JavaScript string is modelled as a \<^typ>\<open>string\<close>, one \<^typ>\<open>char\<close> per code unit
  below 256.  The white space of \<^verbatim>\<open>\s\<close> and of \<^verbatim>\<open>trim()\<close> is, in that range, tab, line
  feed, vertical tab, form feed, carriage return, space and no-break space.
\<close>

definition is_ws :: "char \<Rightarrow> bool" where
  "is_ws c = (c \<in> set [CHR 0x09, CHR 0x0A, CHR 0x0B, CHR 0x0C, CHR 0x0D, CHR 0x20, CHR 0xA0])"

text \<open>The class \<^verbatim>\<open>\w\<close>: ASCII letters, digits and the underscore.\<close>

definition is_word :: "char \<Rightarrow> bool" where
  "is_word c =
     (let n = (of_char c :: nat)
      in (48 \<le> n \<and> n \<le> 57) \<or> (65 \<le> n \<and> n \<le> 90) \<or> n = 95 \<or> (97 \<le> n \<and> n \<le> 122))"

text \<open>\<^verbatim>\<open>s.trim()\<close>\<close>

definition trim :: "string \<Rightarrow> string" where
  "trim s = rev (dropWhile is_ws (rev (dropWhile is_ws s)))"

text \<open>\<^verbatim>\<open>s.startsWith(p)\<close>\<close>

fun startsWith :: "string \<Rightarrow> string \<Rightarrow> bool" where
  "startsWith s [] = True"
| "startsWith [] (p # ps) = False"
| "startsWith (c # cs) (p # ps) = (c = p \<and> startsWith cs ps)"

text \<open>\<^verbatim>\<open>s.includes(p)\<close>\<close>

fun includesStr :: "string \<Rightarrow> string \<Rightarrow> bool" where
  "includesStr [] p = startsWith [] p"
| "includesStr (c # cs) p = (startsWith (c # cs) p \<or> includesStr cs p)"

text \<open>\<^verbatim>\<open>xs.join(sep)\<close>\<close>

fun join :: "string \<Rightarrow> string list \<Rightarrow> string" where
  "join sep [] = []"
| "join sep [x] = x"
| "join sep (x # y # ys) = x @ sep @ join sep (y # ys)"

text \<open>Characters that an Isabelle string literal cannot hold.\<close>

definition backslash :: string where
  "backslash = [CHR 0x5C]"

definition quote :: string where
  "quote = [CHR 0x27]"

definition backtick :: char where
  "backtick = CHR 0x60"

definition newline :: string where
  "newline = [CHR 0x0A]"

text \<open>\<^verbatim>\<open>String(n)\<close> for a non-negative integer: its decimal digits.\<close>

fun digits :: "nat \<Rightarrow> string" where
  "digits n = (if n < 10 then [char_of (48 + n)] else digits (n div 10) @ [char_of (48 + n mod 10)])"

declare digits.simps [simp del]

section \<open>JavaScript numbers and values\<close>

text \<open>
  A JavaScript number is a double: not a number, an infinity, or a finite value, kept as
  the rational it stands for (a negative zero is not told from zero: the code only
  multiplies, compares and prints).
\<close>

datatype jsnum = NaN | PosInf | NegInf | Fin rat

text \<open>
  A value of the JSON body of a request, or \<^verbatim>\<open>undefined\<close> for a field that is absent.
  An array or an object is kept as its text.
\<close>

datatype js_value =
    JUndefined
  | JNull
  | JBool bool
  | JNum jsnum
  | JStr string
  | JObj string

section \<open>Regular expressions of the code generator\<close>

text \<open>
  The regular expressions of the deny list are sequences of literals, \<^verbatim>\<open>\s*\<close> and
  \<^verbatim>\<open>\s+\<close>.  \<open>match_here r s\<close> holds when a prefix of \<open>s\<close> matches the sequence \<open>r\<close>
  (with backtracking over the repetitions), and \<open>regex_test r s\<close> is
  \<^verbatim>\<open>r.test(s)\<close>: a match at some position of \<open>s\<close>.
\<close>

datatype atom = Lit string | WsStar | WsPlus

fun match_here :: "atom list \<Rightarrow> string \<Rightarrow> bool" where
  "match_here [] s = True"
| "match_here (Lit l # r) s = (startsWith s l \<and> match_here r (drop (length l) s))"
| "match_here (WsPlus # r) [] = False"
| "match_here (WsPlus # r) (c # cs) = (is_ws c \<and> match_here (WsStar # r) cs)"
| "match_here (WsStar # r) [] = match_here r []"
| "match_here (WsStar # r) (c # cs) =
     (match_here r (c # cs) \<or> (is_ws c \<and> match_here (WsStar # r) cs))"

fun regex_test :: "atom list \<Rightarrow> string \<Rightarrow> bool" where
  "regex_test r [] = match_here r []"
| "regex_test r (c # cs) = (match_here r (c # cs) \<or> regex_test r cs)"

section \<open>The deny list of Manim constructs (utils/codegenValidator.js)\<close>

text \<open>
  Each banned pattern is kept with its source text, which is what \<^verbatim>\<open>${pattern}\<close>
  prints in the error message.
\<close>

record pattern =
  source :: string
  atoms :: "atom list"

definition bannedPatterns :: "pattern list" where
  "bannedPatterns =
     [\<lparr>source = ''/Axes'' @ backslash @ ''s*'' @ backslash @ ''(/'',
        atoms = [Lit ''Axes'', WsStar, Lit ''('']\<rparr>,
      \<lparr>source = ''/Surface'' @ backslash @ ''s*'' @ backslash @ ''(/'',
        atoms = [Lit ''Surface'', WsStar, Lit ''('']\<rparr>,
      \<lparr>source = ''/ParametricFunction'' @ backslash @ ''s*'' @ backslash @ ''(/'',
        atoms = [Lit ''ParametricFunction'', WsStar, Lit ''('']\<rparr>,
      \<lparr>source = ''/np'' @ backslash @ ''.math/'',
        atoms = [Lit ''np.math'']\<rparr>,
      \<lparr>source = ''/set_shade_in_scene/'',
        atoms = [Lit ''set_shade_in_scene'']\<rparr>,
      \<lparr>source = ''/MathTex'' @ backslash @ ''s*'' @ backslash @ ''(/'',
        atoms = [Lit ''MathTex'', WsStar, Lit ''('']\<rparr>,
      \<lparr>source = ''/Tex'' @ backslash @ ''s*'' @ backslash @ ''(/'',
        atoms = [Lit ''Tex'', WsStar, Lit ''('']\<rparr>,
      \<lparr>source = ''/import'' @ backslash @ ''s+np/'',
        atoms = [Lit ''import'', WsPlus, Lit ''np'']\<rparr>,
      \<lparr>source = ''/import'' @ backslash @ ''s+numpy/'',
        atoms = [Lit ''import'', WsPlus, Lit ''numpy'']\<rparr>]"

text \<open>An exception \<^verbatim>\<open>new Error(message)\<close>.\<close>

datatype js_error = Error string

fun message :: "js_error \<Rightarrow> string" where
  "message (Error m) = m"

text \<open>
  \<^verbatim>\<open>for (const pattern of bannedPatterns) if (pattern.test(code)) throw ...\<close>: the
  loop over the patterns, throwing at the first one that matches.
\<close>

fun validateLoop :: "pattern list \<Rightarrow> string \<Rightarrow> js_error + unit" where
  "validateLoop [] code = Inr ()"
| "validateLoop (p # ps) code =
     (if regex_test (atoms p) code
      then Inl (Error (''Generated Manim code contains prohibited construct: '' @ source p))
      else validateLoop ps code)"

definition validateManimCode :: "string \<Rightarrow> js_error + unit" where
  "validateManimCode code = validateLoop bannedPatterns code"

section \<open>The code generator (utils/codegenService.js)\<close>

text \<open>
  \<^verbatim>\<open>raw.trim().replace(/^```(?:\w+)?\s*/, '').replace(/\s*```$/, '')\<close>.
  The first expression matches only at the start: three backticks, then the longest run
  of word characters, then the longest run of white space.  The second matches only at
  the end: three backticks, and the leftmost match takes all the white space before them.
\<close>

definition fence :: string where
  "fence = [backtick, backtick, backtick]"

definition stripOpenFence :: "string \<Rightarrow> string" where
  "stripOpenFence s =
     (if startsWith s fence then dropWhile is_ws (dropWhile is_word (drop 3 s)) else s)"

definition stripCloseFence :: "string \<Rightarrow> string" where
  "stripCloseFence s =
     (if startsWith (rev s) fence then rev (dropWhile is_ws (drop 3 (rev s))) else s)"

definition cleanCode :: "string \<Rightarrow> string" where
  "cleanCode raw = stripCloseFence (stripOpenFence (trim raw))"

definition validateGeneratedCode :: "string \<Rightarrow> string \<Rightarrow> js_error + unit" where
  "validateGeneratedCode code engine =
     (let trimmed = trim code in
      if engine = ''p5'' \<and> \<not> startsWith trimmed ''function setup()''
      then Inl (Error (''Invalid p5.js generation: must start with '' @ quote
                         @ ''function setup()'' @ quote))
      else if engine = ''manim'' \<and> \<not> includesStr trimmed ''class GeneratedScene''
      then Inl (Error (''Invalid Manim generation: must contain '' @ quote
                         @ ''class GeneratedScene'' @ quote))
      else Inr ())"

text \<open>
  The remote text generation API and the two system prompts are the environment of the
  code generator: \<open>generateContent env apiKey model contents\<close> is the text of the
  response, or the error the call rejects with.
\<close>

record codegen_env =
  generateContent :: "string \<Rightarrow> string \<Rightarrow> string \<Rightarrow> js_error + string"
  p5SystemPrompt :: string
  manimSystemPrompt :: string

definition checkResponse :: "string \<Rightarrow> string \<Rightarrow> js_error + string" where
  "checkResponse engine raw =
     (let cleaned = cleanCode raw in
      case (if engine = ''manim'' then validateManimCode cleaned else Inr ()) of
        Inl e \<Rightarrow> Inl e
      | Inr _ \<Rightarrow>
          (case validateGeneratedCode cleaned engine of
             Inl e \<Rightarrow> Inl e
           | Inr _ \<Rightarrow> Inr cleaned))"

definition generateCode :: "codegen_env \<Rightarrow> string \<Rightarrow> string \<Rightarrow> string \<Rightarrow> js_error + string" where
  "generateCode env prompt engine apiKey =
     (if engine = ''p5'' \<or> engine = ''manim'' then
        (let contents =
           (if engine = ''p5''
            then join newline [p5SystemPrompt env, ''Sketch description: '' @ prompt]
            else join newline [manimSystemPrompt env, ''Scene description: '' @ prompt])
         in case generateContent env apiKey ''gemini-2.0-flash'' contents of
              Inl e \<Rightarrow> Inl e
            | Inr raw \<Rightarrow> checkResponse engine raw)
      else Inl (Error ''Invalid engine in generateCode''))"

section \<open>The request layer (index.js)\<close>

text \<open>
  The in-memory job table \<^verbatim>\<open>jobs\<close> maps a run id to
  \<^verbatim>\<open>{ logs: [], status: 'pending', videoPath: null }\<close>.
\<close>

datatype job_status = Pending | Done

record job =
  logs :: "string list"
  status :: job_status
  videoPath :: "string option"

text \<open>
  The handler of \<^verbatim>\<open>POST /api/generate\<close> is an async function: between two turns of
  the event loop, what is left of it for a run is one of three continuations.  A run
  with no continuation has none left: the handler has answered and nothing is scheduled.
\<close>

datatype task =
    AwaitCodegen string string string js_value
      \<comment> \<open>\<^verbatim>\<open>await generateCode(prompt, engine, apiKey)\<close>, with the \<^verbatim>\<open>duration\<close> of the body\<close>
  | Immediate string string js_value
      \<comment> \<open>the callback of \<^verbatim>\<open>setImmediate\<close> is queued, holding \<^verbatim>\<open>code\<close>, \<^verbatim>\<open>engine\<close>, \<^verbatim>\<open>duration\<close>\<close>
  | AwaitRender
      \<comment> \<open>\<^verbatim>\<open>await generateWithP5(...)\<close> or \<^verbatim>\<open>await generateWithManim(...)\<close>\<close>

datatype response = JsonRunId string | Status400 string

text \<open>A call of a renderer, with the arguments it was given.\<close>

datatype render_call =
    P5Call string string js_value   \<comment> \<open>code, runId, duration\<close>
  | ManimCall string string             \<comment> \<open>code, runId\<close>

fun call_run :: "render_call \<Rightarrow> string" where
  "call_run (P5Call code r d) = r"
| "call_run (ManimCall code r) = r"

text \<open>
  What \<^verbatim>\<open>GET /api/logs\<close> writes to its response: \<^verbatim>\<open>data: ${log}\n\n\<close> for a log
  line, and \<^verbatim>\<open>event: done\ndata: {"videoPath": ...}\n\n\<close> at the end.  A connection
  keeps \<^verbatim>\<open>lastIndex\<close>, and its interval is set until \<^verbatim>\<open>clearInterval\<close>.
\<close>

datatype sse = Data string | DoneEvent "string option"

record stream =
  runId :: string
  lastIndex :: nat
  written :: "sse list"
  polling :: bool
  ended :: bool

record server =
  jobs :: "string \<rightharpoonup> job"
  tasks :: "string \<rightharpoonup> task"
  responses :: "string \<rightharpoonup> response"
  renderCalls :: "render_call list"
  streams :: "stream list"

definition init :: server where
  "init = \<lparr>jobs = Map.empty, tasks = Map.empty, responses = Map.empty,
            renderCalls = [], streams = []\<rparr>"

text \<open>
  \<^verbatim>\<open>jobs[runId].logs.push(msg)\<close>.  A run with a continuation always has its job (jobs are
  never deleted), so the table is left as it is where the job is missing.
\<close>

definition pushLog :: "string \<Rightarrow> string \<Rightarrow> server \<Rightarrow> server" where
  "pushLog r msg s =
     (case jobs s r of
        None \<Rightarrow> s
      | Some j \<Rightarrow> s\<lparr>jobs := (jobs s)(r \<mapsto> j\<lparr>logs := logs j @ [msg]\<rparr>)\<rparr>)"

text \<open>\<^verbatim>\<open>path.basename(p)\<close> on a POSIX path: the part after the last separator.\<close>

definition basename :: "string \<Rightarrow> string" where
  "basename p = rev (takeWhile (\<lambda>c. c \<noteq> CHR ''/'') (dropWhile (\<lambda>c. c = CHR ''/'') (rev p)))"

text \<open>
  The turns of the event loop.  \<open>PostGenerate r prompt engine apiKey duration\<close> is a
  request whose \<^verbatim>\<open>uuidv4()\<close> returned \<open>r\<close>; it runs the handler up to its first
  \<^verbatim>\<open>await\<close>.
\<close>

definition postGenerate ::
  "string \<Rightarrow> string \<Rightarrow> string \<Rightarrow> string \<Rightarrow> js_value \<Rightarrow> server \<Rightarrow> server" where
  "postGenerate r prompt engine apiKey duration s =
     s\<lparr>jobs := (jobs s)(r \<mapsto> \<lparr>logs = [''Code generation started''], status = Pending,
                                 videoPath = None\<rparr>),
       tasks := (tasks s)(r \<mapsto> AwaitCodegen prompt engine apiKey duration)\<rparr>"

text \<open>
  The promise of \<^verbatim>\<open>generateCode\<close> settles.  Rejected: the \<^verbatim>\<open>catch\<close> of the handler
  answers 400 with the message.  Resolved: the handler logs, queues the rendering with
  \<^verbatim>\<open>setImmediate\<close> and answers with the run id.
\<close>

definition codegenSettles :: "codegen_env \<Rightarrow> string \<Rightarrow> server \<Rightarrow> server" where
  "codegenSettles env r s =
     (case tasks s r of
        Some (AwaitCodegen prompt engine apiKey duration) \<Rightarrow>
          (case generateCode env prompt engine apiKey of
             Inl e \<Rightarrow>
               s\<lparr>tasks := (tasks s)(r := None),
                 responses := (responses s)(r \<mapsto> Status400 (message e))\<rparr>
           | Inr code \<Rightarrow>
               (pushLog r ''Code generation completed'' s)
                 \<lparr>tasks := (tasks s)(r \<mapsto> Immediate code engine duration),
                  responses := (responses s)(r \<mapsto> JsonRunId r)\<rparr>)
      | _ \<Rightarrow> s)"

text \<open>
  The callback of \<^verbatim>\<open>setImmediate\<close> runs: it logs and calls the renderer of the engine;
  for any other engine it throws inside its \<^verbatim>\<open>try\<close>, and the \<^verbatim>\<open>catch\<close> ends the job.
\<close>

definition failJob :: "string \<Rightarrow> js_error \<Rightarrow> server \<Rightarrow> server" where
  "failJob r e s =
     (case jobs s r of
        None \<Rightarrow> s
      | Some j \<Rightarrow>
          s\<lparr>jobs := (jobs s)(r \<mapsto> j\<lparr>logs := logs j @ [''Error: '' @ message e],
                                       status := Done\<rparr>)\<rparr>)"

definition finishJob :: "string \<Rightarrow> string \<Rightarrow> server \<Rightarrow> server" where
  "finishJob r path s =
     (case jobs s r of
        None \<Rightarrow> s
      | Some j \<Rightarrow>
          s\<lparr>jobs := (jobs s)(r \<mapsto> j\<lparr>videoPath := Some (''/videos/'' @ basename path),
                                       status := Done,
                                       logs := logs j @ [''Rendering complete'']\<rparr>)\<rparr>)"

definition runImmediate :: "string \<Rightarrow> server \<Rightarrow> server" where
  "runImmediate r s =
     (case tasks s r of
        Some (Immediate code engine duration) \<Rightarrow>
          (let s1 = pushLog r (''Rendering started using '' @ engine) s in
           if engine = ''p5'' then
             s1\<lparr>tasks := (tasks s1)(r \<mapsto> AwaitRender),
                renderCalls := renderCalls s1 @ [P5Call code r duration]\<rparr>
           else if engine = ''manim'' then
             s1\<lparr>tasks := (tasks s1)(r \<mapsto> AwaitRender),
                renderCalls := renderCalls s1 @ [ManimCall code r]\<rparr>
           else
             (failJob r (Error ''Invalid engine during render'') s1)
               \<lparr>tasks := (tasks s1)(r := None)\<rparr>)
      | _ \<Rightarrow> s)"

text \<open>
  The renderer calls its log function \<^verbatim>\<open>msg => jobs[runId].logs.push(msg)\<close>.  The push
  has no condition: a renderer that logs after its promise has settled (the \<^verbatim>\<open>close\<close>
  handler of the Manim renderer, after its \<^verbatim>\<open>error\<close> handler has rejected) appends to the
  log of a job that is done.
\<close>

definition renderLog :: "string \<Rightarrow> string \<Rightarrow> server \<Rightarrow> server" where
  "renderLog r msg s = pushLog r msg s"

text \<open>The promise of the renderer settles: with the path of the video, or with an error.\<close>

definition renderSettles :: "string \<Rightarrow> js_error + string \<Rightarrow> server \<Rightarrow> server" where
  "renderSettles r out s =
     (case tasks s r of
        Some AwaitRender \<Rightarrow>
          (case out of
             Inr path \<Rightarrow> (finishJob r path s)\<lparr>tasks := (tasks s)(r := None)\<rparr>
           | Inl e \<Rightarrow> (failJob r e s)\<lparr>tasks := (tasks s)(r := None)\<rparr>)
      | _ \<Rightarrow> s)"

text \<open>
  \<^verbatim>\<open>while (lastIndex < allLogs.length) { const log = allLogs[lastIndex++]; res.write(...) }\<close>
\<close>

function sendLogs :: "string list \<Rightarrow> stream \<Rightarrow> stream" where
  "sendLogs allLogs st =
     (if lastIndex st < length allLogs
      then sendLogs allLogs
             (st\<lparr>written := written st @ [Data (allLogs ! lastIndex st)],
                 lastIndex := Suc (lastIndex st)\<rparr>)
      else st)"
  by pat_completeness auto
termination
  by (relation "measure (\<lambda>(allLogs, st). length allLogs - lastIndex st)") auto

declare sendLogs.simps [simp del]

text \<open>
  \<^verbatim>\<open>GET /api/logs?runId=r\<close>: 404 for an unknown run; otherwise a new connection, which
  sends the lines logged so far at once and sets the interval.
\<close>

definition getLogs :: "string \<Rightarrow> server \<Rightarrow> server" where
  "getLogs r s =
     (case jobs s r of
        None \<Rightarrow> s
      | Some j \<Rightarrow>
          s\<lparr>streams := streams s @
               [sendLogs (logs j)
                  \<lparr>runId = r, lastIndex = 0, written = [], polling = True, ended = False\<rparr>]\<rparr>)"

text \<open>
  The callback of the interval of connection \<open>i\<close>: send the new lines and, when the job
  is done, the final event; then \<^verbatim>\<open>clearInterval\<close> and \<^verbatim>\<open>res.end()\<close>.
\<close>

definition tick :: "nat \<Rightarrow> server \<Rightarrow> server" where
  "tick i s =
     (if i < length (streams s) \<and> polling (streams s ! i) then
        (case jobs s (runId (streams s ! i)) of
           None \<Rightarrow> s
         | Some j \<Rightarrow>
             (let st = sendLogs (logs j) (streams s ! i) in
              if status j = Done
              then s\<lparr>streams := (streams s)[i := st\<lparr>written := written st @ [DoneEvent (videoPath j)],
                                                     polling := False, ended := True\<rparr>]\<rparr>
              else s\<lparr>streams := (streams s)[i := st]\<rparr>))
      else s)"

text \<open>The client of connection \<open>i\<close> disconnects: \<^verbatim>\<open>req.on('close', () => clearInterval(interval))\<close>.\<close>

definition closeStream :: "nat \<Rightarrow> server \<Rightarrow> server" where
  "closeStream i s =
     (if i < length (streams s)
      then s\<lparr>streams := (streams s)[i := (streams s ! i)\<lparr>polling := False\<rparr>]\<rparr>
      else s)"

datatype event =
    PostGenerate string string string string js_value
  | CodegenSettles string
  | RunImmediate string
  | RenderLog string string
  | RenderSettles string "js_error + string"
  | GetLogs string
  | Tick nat
  | CloseStream nat

fun step :: "codegen_env \<Rightarrow> server \<Rightarrow> event \<Rightarrow> server" where
  "step env s (PostGenerate r prompt engine apiKey duration) =
     postGenerate r prompt engine apiKey duration s"
| "step env s (CodegenSettles r) = codegenSettles env r s"
| "step env s (RunImmediate r) = runImmediate r s"
| "step env s (RenderLog r msg) = renderLog r msg s"
| "step env s (RenderSettles r out) = renderSettles r out s"
| "step env s (GetLogs r) = getLogs r s"
| "step env s (Tick i) = tick i s"
| "step env s (CloseStream i) = closeStream i s"

text \<open>A sequence of turns, from a state.\<close>

definition exec :: "codegen_env \<Rightarrow> server \<Rightarrow> event list \<Rightarrow> server" where
  "exec env s es = foldl (step env) s es"

text \<open>
  \<^verbatim>\<open>uuidv4()\<close> returns an id that no job has: along a sequence of turns, every request
  gets a run id that is not in the job table at that moment.
\<close>

fun newId :: "server \<Rightarrow> event \<Rightarrow> bool" where
  "newId s (PostGenerate r prompt engine apiKey duration) = (jobs s r = None)"
| "newId s e = True"

fun uuidFresh :: "codegen_env \<Rightarrow> server \<Rightarrow> event list \<Rightarrow> bool" where
  "uuidFresh env s [] = True"
| "uuidFresh env s (e # es) = (newId s e \<and> uuidFresh env (step env s e) es)"

section \<open>The file system\<close>

text \<open>
  A file system is a tree: a file with its contents, or a directory with its entries in
  the order \<^verbatim>\<open>readdirSync\<close> lists them.  A path is the list of its components from
  the root, and \<open>path_str\<close> writes it as the absolute path it stands for.
\<close>

type_synonym path = "string list"

datatype node = File string | Dir "(string \<times> node) list"

definition path_str :: "path \<Rightarrow> string" where
  "path_str p = ''/'' @ join ''/'' p"

fun lookup :: "node \<Rightarrow> path \<Rightarrow> node option"
  and lookupIn :: "(string \<times> node) list \<Rightarrow> string \<Rightarrow> path \<Rightarrow> node option" where
  "lookup n [] = Some n"
| "lookup (File c) (x # xs) = None"
| "lookup (Dir es) (x # xs) = lookupIn es x xs"
| "lookupIn [] x xs = None"
| "lookupIn ((y, n) # es) x xs = (if y = x then lookup n xs else lookupIn es x xs)"

text \<open>\<^verbatim>\<open>fs.existsSync(p)\<close>\<close>

definition existsSync :: "node \<Rightarrow> path \<Rightarrow> bool" where
  "existsSync fs p = (lookup fs p \<noteq> None)"

text \<open>
  \<^verbatim>\<open>fs.rmSync(p, { recursive: true, force: true })\<close>: the entry and all below it go;
  nothing happens when there is no such entry.
\<close>

fun rmSync :: "node \<Rightarrow> path \<Rightarrow> node"
  and rmIn :: "(string \<times> node) list \<Rightarrow> string \<Rightarrow> path \<Rightarrow> (string \<times> node) list" where
  "rmSync n [] = n"
| "rmSync (File c) (x # xs) = File c"
| "rmSync (Dir es) (x # xs) = Dir (rmIn es x xs)"
| "rmIn [] x xs = []"
| "rmIn ((y, n) # es) x xs =
     (if y = x then (if xs = [] then rmIn es x xs else (y, rmSync n xs) # rmIn es x xs)
      else (y, n) # rmIn es x xs)"

text \<open>
  Writing a file at a path: the directory of the path must exist and the path must not
  be a directory; otherwise the call throws (\<open>None\<close>).
\<close>

fun writeFile :: "node \<Rightarrow> path \<Rightarrow> string \<Rightarrow> node option"
  and writeIn :: "(string \<times> node) list \<Rightarrow> string \<Rightarrow> path \<Rightarrow> string \<Rightarrow> (string \<times> node) list option" where
  "writeFile n [] c = None"
| "writeFile (File d) (x # xs) c = None"
| "writeFile (Dir es) (x # xs) c = map_option Dir (writeIn es x xs c)"
| "writeIn [] x xs c = (if xs = [] then Some [(x, File c)] else None)"
| "writeIn ((y, n) # es) x xs c =
     (if y = x then
        (if xs = [] then (case n of File d \<Rightarrow> Some ((y, File c) # es) | Dir ds \<Rightarrow> None)
         else map_option (\<lambda>n'. (y, n') # es) (writeFile n xs c))
      else map_option (\<lambda>es'. (y, n) # es') (writeIn es x xs c))"

text \<open>\<^verbatim>\<open>fs.copyFileSync(src, dest)\<close>: \<open>src\<close> must be a file.\<close>

definition copyFileSync :: "node \<Rightarrow> path \<Rightarrow> path \<Rightarrow> node option" where
  "copyFileSync fs src dest =
     (case lookup fs src of
        Some (File c) \<Rightarrow> writeFile fs dest c
      | _ \<Rightarrow> None)"

text \<open>
  \<^verbatim>\<open>fs.mkdirSync(p, { recursive: true })\<close>: the missing directories of the path are
  made; the call throws when a component of the path is a file.
\<close>

fun mkdirSync :: "node \<Rightarrow> path \<Rightarrow> node option"
  and mkdirIn :: "(string \<times> node) list \<Rightarrow> string \<Rightarrow> path \<Rightarrow> (string \<times> node) list option" where
  "mkdirSync (File c) p = None"
| "mkdirSync (Dir es) [] = Some (Dir es)"
| "mkdirSync (Dir es) (x # xs) = map_option Dir (mkdirIn es x xs)"
| "mkdirIn [] x xs = map_option (\<lambda>n. [(x, n)]) (mkdirSync (Dir []) xs)"
| "mkdirIn ((y, n) # es) x xs =
     (if y = x then map_option (\<lambda>n'. (y, n') # es) (mkdirSync n xs)
      else map_option (\<lambda>es'. (y, n) # es') (mkdirIn es x xs))"

section \<open>The Manim renderer (services/manimRenderer.js)\<close>

text \<open>
  What the renderer does to the world, in order: the lines it gives to its log function,
  its calls on the file system, and the process it spawns.
\<close>

datatype fs_ev =
    Log string
  | Exists path
  | Readdir path
  | Stat path
  | Rm path
  | Copy path path
  | Unlink path
  | Mkdir path
  | Write path
  | Spawn string "string list"

text \<open>
  The result of a call: the file system it leaves, what it did, and how its promise
  settles (\<open>Inr\<close> the path it resolves to, \<open>Inl\<close> the error it rejects with).
\<close>

record render_result =
  fsAfter :: node
  trace :: "fs_ev list"
  settled :: "js_error + string"

text \<open>
  \<^verbatim>\<open>findManimVideo(dir)\<close>, on the entries of a directory \<open>dir\<close> that exists: the first
  file named \<^verbatim>\<open>GeneratedScene.mp4\<close>, depth first in the order of \<^verbatim>\<open>readdirSync\<close>.
\<close>

fun findDir :: "path \<Rightarrow> (string \<times> node) list \<Rightarrow> path option \<times> fs_ev list"
  and findItems :: "path \<Rightarrow> (string \<times> node) list \<Rightarrow> path option \<times> fs_ev list" where
  "findDir dir es =
     (case findItems dir es of
        (r, t) \<Rightarrow>
          (r, [Exists dir, Log (''Searching in directory: '' @ path_str dir), Readdir dir,
               Log (''Found items: '' @ join '', '' (map fst es))] @ t))"
| "findItems dir [] = (None, [])"
| "findItems dir ((item, n) # rest) =
     (case n of
        File c \<Rightarrow>
          (if item = ''GeneratedScene.mp4''
           then (Some (dir @ [item]),
                 [Exists (dir @ [item]), Stat (dir @ [item]),
                  Log (''Found final video at: '' @ path_str (dir @ [item]))])
           else (case findItems dir rest of
                   (r, t) \<Rightarrow> (r, [Exists (dir @ [item]), Stat (dir @ [item])] @ t)))
      | Dir ds \<Rightarrow>
          (case findDir (dir @ [item]) ds of
             (Some p, t1) \<Rightarrow> (Some p, [Exists (dir @ [item]), Stat (dir @ [item])] @ t1)
           | (None, t1) \<Rightarrow>
               (case findItems dir rest of
                  (r, t) \<Rightarrow> (r, [Exists (dir @ [item]), Stat (dir @ [item])] @ t1 @ t))))"

text \<open>
  The call \<^verbatim>\<open>findManimVideo(outDir)\<close>: \<^verbatim>\<open>null\<close> when \<open>outDir\<close> does not exist;
  \<^verbatim>\<open>readdirSync\<close> throws when it is a file.
\<close>

definition notDirectory :: "path \<Rightarrow> js_error" where
  "notDirectory p = Error (''ENOTDIR: not a directory, scandir '' @ quote @ path_str p @ quote)"

definition findManimVideo :: "node \<Rightarrow> path \<Rightarrow> (js_error + path option) \<times> fs_ev list" where
  "findManimVideo fs dir =
     (case lookup fs dir of
        None \<Rightarrow> (Inr None, [Exists dir])
      | Some (File c) \<Rightarrow>
          (Inl (notDirectory dir),
           [Exists dir, Log (''Searching in directory: '' @ path_str dir), Readdir dir])
      | Some (Dir es) \<Rightarrow> (case findDir dir es of (r, t) \<Rightarrow> (Inr r, t)))"

text \<open>
  \<^verbatim>\<open>checkForPartialFiles(dir)\<close>: the files below \<open>dir\<close> whose name includes
  \<^verbatim>\<open>uncached_\<close> or \<^verbatim>\<open>partial\<close>.
\<close>

fun partialDir :: "path \<Rightarrow> (string \<times> node) list \<Rightarrow> path list \<times> fs_ev list"
  and partialItems :: "path \<Rightarrow> (string \<times> node) list \<Rightarrow> path list \<times> fs_ev list" where
  "partialDir dir es =
     (case partialItems dir es of (ps, t) \<Rightarrow> (ps, [Exists dir, Readdir dir] @ t))"
| "partialItems dir [] = ([], [])"
| "partialItems dir ((item, n) # rest) =
     (case n of
        File c \<Rightarrow>
          (case partialItems dir rest of
             (ps, t) \<Rightarrow>
               ((if includesStr item ''uncached_'' \<or> includesStr item ''partial''
                 then [dir @ [item]] else []) @ ps,
                [Exists (dir @ [item]), Stat (dir @ [item])] @ t))
      | Dir ds \<Rightarrow>
          (case partialDir (dir @ [item]) ds of
             (qs, t1) \<Rightarrow>
               (case partialItems dir rest of
                  (ps, t) \<Rightarrow> (qs @ ps, [Exists (dir @ [item]), Stat (dir @ [item])] @ t1 @ t))))"

definition checkForPartialFiles :: "node \<Rightarrow> path \<Rightarrow> (js_error + path list) \<times> fs_ev list" where
  "checkForPartialFiles fs dir =
     (case lookup fs dir of
        None \<Rightarrow> (Inr [], [Exists dir])
      | Some (File c) \<Rightarrow> (Inl (notDirectory dir), [Exists dir, Readdir dir])
      | Some (Dir es) \<Rightarrow> (case partialDir dir es of (ps, t) \<Rightarrow> (Inr ps, t)))"

text \<open>The loop over \<^verbatim>\<open>commonLocations\<close>: the first one that exists.\<close>

definition commonLocations :: "path \<Rightarrow> path list" where
  "commonLocations outDir =
     [outDir @ [''GeneratedScene.mp4''],
      outDir @ [''2160p60'', ''GeneratedScene.mp4''],
      outDir @ [''1080p60'', ''GeneratedScene.mp4''],
      outDir @ [''720p30'', ''GeneratedScene.mp4''],
      outDir @ [''480p15'', ''GeneratedScene.mp4'']]"

fun checkLocations :: "node \<Rightarrow> path list \<Rightarrow> path option \<times> fs_ev list" where
  "checkLocations fs [] = (None, [])"
| "checkLocations fs (l # ls) =
     (if existsSync fs l
      then (Some l, [Exists l, Log (''Found video at common location: '' @ path_str l)])
      else (case checkLocations fs ls of (r, t) \<Rightarrow> (r, Exists l # t)))"

text \<open>The \<^verbatim>\<open>catch\<close> around the handling of exit code zero.\<close>

definition processingError :: "node \<Rightarrow> fs_ev list \<Rightarrow> string \<Rightarrow> render_result" where
  "processingError fs t msg =
     \<lparr>fsAfter = fs,
      trace = t @ [Log (''Error processing video: '' @ msg)],
      settled = Inl (Error (''Error processing Manim output: '' @ msg))\<rparr>"

text \<open>
  The message of the exception of \<^verbatim>\<open>fs.copyFileSync(src, dest)\<close>: a directory at
  either end is \<^verbatim>\<open>EISDIR\<close>, a missing source or a missing directory of the destination is
  \<^verbatim>\<open>ENOENT\<close>.
\<close>

definition isDirectory :: "node \<Rightarrow> path \<Rightarrow> bool" where
  "isDirectory fs p = (case lookup fs p of Some (Dir ds) \<Rightarrow> True | _ \<Rightarrow> False)"

definition copyError :: "node \<Rightarrow> path \<Rightarrow> path \<Rightarrow> string" where
  "copyError fs src dest =
     (if isDirectory fs src \<or> isDirectory fs dest
      then ''EISDIR: illegal operation on a directory, ''
      else ''ENOENT: no such file or directory, '')
     @ ''copyfile '' @ quote @ path_str src @ quote @ '' -> '' @ quote @ path_str dest @ quote"

definition incompleteMessage :: string where
  "incompleteMessage =
     ''Manim rendering incomplete: Final video assembly failed. This may be due to complex animations or system resource constraints. Try simplifying the prompt.''"

text \<open>
  No video was found: partial files tell an incomplete render from one that produced
  nothing.  The first branch looks once more for the video, in the media root.
\<close>

definition noVideo :: "path \<Rightarrow> string \<Rightarrow> node \<Rightarrow> fs_ev list \<Rightarrow> render_result" where
  "noVideo media run fs t =
     (let outDir = media @ [run];
          finalVideoPath = media @ [run @ ''.mp4''];
          rootVideoPath = media @ [''GeneratedScene.mp4'']
      in case checkForPartialFiles fs outDir of
           (Inl e, tp) \<Rightarrow> processingError fs (t @ tp) (message e)
         | (Inr partialFiles, tp) \<Rightarrow>
             if 0 < length partialFiles then
               (let t1 = t @ tp @
                      [Log (''Found '' @ digits (length partialFiles)
                              @ '' partial files, but no final GeneratedScene.mp4''),
                       Log ''This indicates Manim failed during the final assembly phase'',
                       Exists rootVideoPath]
                in if existsSync fs rootVideoPath then
                     (let t2 = t1 @ [Log (''Found video in root directory: '' @ path_str rootVideoPath),
                                     Copy rootVideoPath finalVideoPath]
                      in case copyFileSync fs rootVideoPath finalVideoPath of
                           None \<Rightarrow> processingError fs t2 (copyError fs rootVideoPath finalVideoPath)
                         | Some fs1 \<Rightarrow>
                             \<lparr>fsAfter = rmSync (rmSync fs1 rootVideoPath) outDir,
                              trace = t2 @ [Unlink rootVideoPath, Rm outDir,
                                 Log (''Video successfully saved to '' @ path_str finalVideoPath)],
                              settled = Inr (path_str finalVideoPath)\<rparr>)
                   else
                     \<lparr>fsAfter = rmSync fs outDir,
                      trace = t1 @ [Rm outDir],
                      settled = Inl (Error incompleteMessage)\<rparr>)
             else
               \<lparr>fsAfter = fs,
                trace = t @ tp @
                  [Log ''No video files found in output directory'', Readdir outDir,
                   (case lookup fs outDir of
                      Some (Dir es) \<Rightarrow> Log (''Directory contents: '' @ join '', '' (map fst es))
                    | _ \<Rightarrow> Log ''Could not read directory contents'')],
                settled = Inl (Error (''Could not find GeneratedScene.mp4 in '' @ path_str outDir
                                        @ ''. Manim may have failed silently.''))\<rparr>)"

text \<open>The handler of \<^verbatim>\<open>close\<close> for exit code zero.\<close>

definition closeZero :: "path \<Rightarrow> string \<Rightarrow> node \<Rightarrow> render_result" where
  "closeZero media run fs =
     (let outDir = media @ [run];
          finalVideoPath = media @ [run @ ''.mp4''];
          t0 = [Log ''Manim rendering completed successfully'', Exists finalVideoPath]
      in if existsSync fs finalVideoPath then
           (let t1 = t0 @ [Log (''Video already exists at: '' @ path_str finalVideoPath),
                           Exists outDir]
            in if existsSync fs outDir
               then \<lparr>fsAfter = rmSync fs outDir, trace = t1 @ [Rm outDir],
                      settled = Inr (path_str finalVideoPath)\<rparr>
               else \<lparr>fsAfter = fs, trace = t1, settled = Inr (path_str finalVideoPath)\<rparr>)
         else
           (let t1 = t0 @ [Log (''Searching for GeneratedScene.mp4 in: '' @ path_str outDir)]
            in case findManimVideo fs outDir of
                 (Inl e, tf) \<Rightarrow> processingError fs (t1 @ tf) (message e)
               | (Inr found, tf) \<Rightarrow>
                   (case (case found of
                            Some p \<Rightarrow> (Some p, [])
                          | None \<Rightarrow> checkLocations fs (commonLocations outDir)) of
                      (None, tc) \<Rightarrow> noVideo media run fs (t1 @ tf @ tc)
                    | (Some manimVideoPath, tc) \<Rightarrow>
                        (let t2 = t1 @ tf @ tc @ [Exists manimVideoPath] in
                         if existsSync fs manimVideoPath then
                           (case copyFileSync fs manimVideoPath finalVideoPath of
                              None \<Rightarrow>
                                processingError fs (t2 @ [Copy manimVideoPath finalVideoPath])
                                  (copyError fs manimVideoPath finalVideoPath)
                            | Some fs1 \<Rightarrow>
                                \<lparr>fsAfter = rmSync fs1 outDir,
                                 trace = t2 @ [Copy manimVideoPath finalVideoPath, Rm outDir,
                                    Log (''Video successfully saved to '' @ path_str finalVideoPath)],
                                 settled = Inr (path_str finalVideoPath)\<rparr>)
                         else noVideo media run fs t2))))"

text \<open>The message for a nonzero exit code, from what the process wrote to stderr.\<close>

definition errorMessage :: "string \<Rightarrow> string" where
  "errorMessage stderrData =
     (if includesStr stderrData ''TypeError'' then
        (if includesStr stderrData ''use_quadratic_bezier''
         then ''Code uses deprecated Manim API. Please try regenerating with a simpler prompt.''
         else if includesStr stderrData ''unexpected keyword argument''
         then ''Generated code uses incorrect method parameters. Try regenerating with a different approach.''
         else ''TypeError in generated code. The AI may have used incorrect method parameters.'')
      else if includesStr stderrData ''AttributeError''
      then ''AttributeError in generated code. The AI may have used non-existent methods.''
      else if includesStr stderrData ''ImportError'' \<or> includesStr stderrData ''ModuleNotFoundError''
      then ''Missing required Python packages for Manim rendering.''
      else if includesStr stderrData ''SyntaxError''
      then ''Syntax error in generated Python code.''
      else if includesStr stderrData ''NameError''
      then ''Variable or function name error in generated code.''
      else if includesStr stderrData ''MemoryError'' \<or> includesStr stderrData ''OutOfMemoryError''
      then ''Insufficient memory for rendering. Try reducing animation complexity or duration.''
      else if includesStr stderrData ''FFmpeg''
      then ''Video encoding failed. There may be an issue with the animation timeline or FFmpeg.''
      else ''Manim rendering failed'')"

text \<open>
  An exit code is an integer, or \<^verbatim>\<open>null\<close> when a signal ended the process.
\<close>

definition intStr :: "int \<Rightarrow> string" where
  "intStr i = (if i < 0 then ''-'' @ digits (nat (- i)) else digits (nat i))"

definition exitStr :: "int option \<Rightarrow> string" where
  "exitStr c = (case c of None \<Rightarrow> ''null'' | Some i \<Rightarrow> intStr i)"

definition closeNonzero :: "path \<Rightarrow> string \<Rightarrow> int option \<Rightarrow> string \<Rightarrow> node \<Rightarrow> render_result" where
  "closeNonzero media run exitCode stderrData fs =
     (let outDir = media @ [run];
          t0 = [Log (''Rendering failed with exit code '' @ exitStr exitCode @ '': ''
                       @ errorMessage stderrData),
                Log ''Full error output:'',
                Log stderrData,
                Exists outDir]
      in if existsSync fs outDir
         then \<lparr>fsAfter = rmSync fs outDir, trace = t0 @ [Rm outDir],
                settled = Inl (Error (errorMessage stderrData))\<rparr>
         else \<lparr>fsAfter = fs, trace = t0, settled = Inl (Error (errorMessage stderrData))\<rparr>)"

text \<open>\<^verbatim>\<open>proc.on('close', code => ...)\<close>\<close>

definition onClose :: "path \<Rightarrow> string \<Rightarrow> int option \<Rightarrow> string \<Rightarrow> node \<Rightarrow> render_result" where
  "onClose media run exitCode stderrData fs =
     (if exitCode = Some 0 then closeZero media run fs
      else closeNonzero media run exitCode stderrData fs)"

text \<open>
  What the process writes while it runs, in the order of the \<^verbatim>\<open>data\<close> events, and the
  log line of each chunk.
\<close>

datatype chunk = Stdout string | Stderr string

definition toLowerChar :: "char \<Rightarrow> char" where
  "toLowerChar c =
     (let n = (of_char c :: nat)
      in if (65 \<le> n \<and> n \<le> 90) \<or> (192 \<le> n \<and> n \<le> 222 \<and> n \<noteq> 215) then char_of (n + 32) else c)"

definition toLowerCase :: "string \<Rightarrow> string" where
  "toLowerCase s = map toLowerChar s"

fun chunkLog :: "chunk \<Rightarrow> fs_ev" where
  "chunkLog (Stdout output) = Log (''[Manim] '' @ trim output)"
| "chunkLog (Stderr output) =
     (let outputTrimmed = trim output;
          isProgress = (includesStr outputTrimmed ''Animation'' \<and>
                        (includesStr outputTrimmed ''%|'' \<or> includesStr outputTrimmed ''it/s''));
          isActualError = ((includesStr (toLowerCase outputTrimmed) ''error'' \<or>
                            includesStr (toLowerCase outputTrimmed) ''traceback'' \<or>
                            includesStr (toLowerCase outputTrimmed) ''exception'') \<and> \<not> isProgress)
      in if isProgress then Log (''[Manim Progress] '' @ outputTrimmed)
         else if isActualError then Log (''[Manim Error] '' @ outputTrimmed)
         else Log (''[Manim] '' @ outputTrimmed))"

fun stderrOf :: "chunk list \<Rightarrow> string" where
  "stderrOf [] = []"
| "stderrOf (Stdout output # cs) = stderrOf cs"
| "stderrOf (Stderr output # cs) = output @ stderrOf cs"

text \<open>
  The environment of the renderer: the user data directory of the application, what
  \<^verbatim>\<open>await detectManim()\<close> gives, and the Manim process.  The process either closes
  with an exit code, having written its chunks and having left the file system in some
  state, or fails to start: Node then emits \<^verbatim>\<open>error\<close> with a message and after it, if
  at all, \<^verbatim>\<open>close\<close> with the negative code of the failure.
\<close>

datatype proc_result = SpawnError string "int option option" | Closed "int option" "chunk list" node

text \<open>
  The result of the renderer: what it did until its promise settled, and what it did
  after that.
\<close>

record manim_result = render_result +
  afterSettle :: "fs_ev list"

record manim_env =
  userData :: path
  detectManimResult :: "js_error + string"
  spawnManim :: "string \<Rightarrow> string list \<Rightarrow> node \<Rightarrow> proc_result"

text \<open>\<^verbatim>\<open>if (!fs.existsSync(d)) fs.mkdirSync(d, { recursive: true })\<close>, for each directory in turn.\<close>

fun ensureDirs :: "node \<Rightarrow> path list \<Rightarrow> js_error option \<times> node \<times> fs_ev list" where
  "ensureDirs fs [] = (None, fs, [])"
| "ensureDirs fs (d # ds) =
     (if existsSync fs d
      then (case ensureDirs fs ds of (r, fs', t) \<Rightarrow> (r, fs', Exists d # t))
      else (case mkdirSync fs d of
              None \<Rightarrow> (Some (Error (''ENOTDIR: not a directory, mkdir '' @ quote @ path_str d @ quote)),
                        fs, [Exists d, Mkdir d])
            | Some fs1 \<Rightarrow> (case ensureDirs fs1 ds of (r, fs', t) \<Rightarrow> (r, fs', [Exists d, Mkdir d] @ t))))"

definition generateWithManim :: "manim_env \<Rightarrow> node \<Rightarrow> string \<Rightarrow> string \<Rightarrow> manim_result" where
  "generateWithManim env fs code run =
     (let scriptsDir = userData env @ [''scripts''];
          mediaDir = userData env @ [''media'', ''videos''];
          outDir = mediaDir @ [run];
          scriptPath = scriptsDir @ [run @ ''.py'']
      in case ensureDirs fs [scriptsDir, mediaDir, outDir] of
           (Some e, fs1, t1) \<Rightarrow> \<lparr>fsAfter = fs1, trace = t1, settled = Inl e, afterSettle = []\<rparr>
         | (None, fs1, t1) \<Rightarrow>
             (case writeFile fs1 scriptPath code of
                None \<Rightarrow>
                  \<lparr>fsAfter = fs1, trace = t1 @ [Write scriptPath],
                   settled = Inl (Error (''EISDIR: illegal operation on a directory, open ''
                                           @ quote @ path_str scriptPath @ quote)),
                   afterSettle = []\<rparr>
              | Some fs2 \<Rightarrow>
                  (let t2 = t1 @ [Write scriptPath, Log ''Manim script written''] in
                   case detectManimResult env of
                     Inl e \<Rightarrow> \<lparr>fsAfter = fs2, trace = t2, settled = Inl e, afterSettle = []\<rparr>
                   | Inr manimCmd \<Rightarrow>
                       (let args = [''-qk'', ''--disable_caching'', path_str scriptPath,
                                    ''GeneratedScene'', ''-o'', path_str outDir];
                            t3 = t2 @ [Log ''Manim executable found'',
                                       Log ''Starting Manim rendering...'',
                                       Spawn manimCmd args]
                        in case spawnManim env manimCmd args fs2 of
                             SpawnError msg closing \<Rightarrow>
                               (case closing of
                                  None \<Rightarrow>
                                    \<lparr>fsAfter = fs2,
                                     trace = t3 @ [Log (''Process error: '' @ msg)],
                                     settled = Inl (Error (''Failed to start Manim: '' @ msg)),
                                     afterSettle = []\<rparr>
                                | Some exitCode \<Rightarrow>
                                    (let r = onClose mediaDir run exitCode [] fs2
                                     in \<lparr>fsAfter = fsAfter r,
                                         trace = t3 @ [Log (''Process error: '' @ msg)],
                                         settled = Inl (Error (''Failed to start Manim: '' @ msg)),
                                         afterSettle = trace r\<rparr>))
                           | Closed exitCode chunks fs3 \<Rightarrow>
                               (let r = onClose mediaDir run exitCode (stderrOf chunks) fs3
                                in \<lparr>fsAfter = fsAfter r,
                                    trace = t3 @ map chunkLog chunks @ trace r,
                                    settled = settled r,
                                    afterSettle = []\<rparr>)))))"

section \<open>The p5 renderer (services/p5Renderer.js)\<close>


















section \<open>The tool detectors (utils/detectManim.js, utils/detectChrome.js)\<close>

text \<open>
  The host a detector looks at: the environment variables, whether
  \<^verbatim>\<open>fs.promises.access(p, X_OK)\<close> succeeds, \<^verbatim>\<open>which.sync(name)\<close> (\<open>None\<close> when it
  throws), the installations \<^verbatim>\<open>chrome-launcher\<close> lists (\<open>None\<close> when the import or the
  scan throws), \<^verbatim>\<open>electron-is-dev\<close>, \<^verbatim>\<open>os.platform()\<close>, \<^verbatim>\<open>os.homedir()\<close>,
  \<^verbatim>\<open>fs.promises.readdir\<close> (\<open>None\<close> when it throws), \<^verbatim>\<open>path.join\<close>, and the trimmed
  path that the registry query of Windows yields (\<open>None\<close> when the query throws or its
  output has no \<^verbatim>\<open>REG_SZ\<close> value).
\<close>

record host =
  envVar :: "string \<Rightarrow> string option"
  accessX :: "string \<Rightarrow> bool"
  whichSync :: "string \<Rightarrow> string option"
  installations :: "string list option"
  isDev :: bool
  platform :: string
  homedir :: string
  readdir :: "string \<Rightarrow> string list option"
  pathJoin :: "string list \<Rightarrow> string"
  regQuery :: "string option"

text \<open>
  A cached path is \<^verbatim>\<open>undefined\<close> (\<open>None\<close>) or a string; \<^verbatim>\<open>if (cached)\<close> and
  \<^verbatim>\<open>if (envPath)\<close> hold for a string that is not empty.
\<close>

fun truthy :: "string option \<Rightarrow> bool" where
  "truthy None = False"
| "truthy (Some s) = (s \<noteq> [])"

text \<open>
  \<^verbatim>\<open>detectManim()\<close>: the result, and the cache after the call.
\<close>

definition detectManim :: "host \<Rightarrow> string option \<Rightarrow> (js_error + string) \<times> string option" where
  "detectManim h cachedManimPath =
     (if truthy cachedManimPath then (Inr (the cachedManimPath), cachedManimPath)
      else if truthy (envVar h ''MANIM_PATH'') \<and> accessX h (the (envVar h ''MANIM_PATH''))
      then (Inr (the (envVar h ''MANIM_PATH'')), envVar h ''MANIM_PATH'')
      else
        (case whichSync h ''manim'' of
           Some p \<Rightarrow> (Inr p, Some p)
         | None \<Rightarrow>
             (case whichSync h ''manimce'' of
                Some p \<Rightarrow> (Inr p, Some p)
              | None \<Rightarrow>
                  (if whichSync h ''python3'' = None \<and> whichSync h ''python'' = None
                   then (Inl (Error ''Python executable not found. Please install Python 3.10+ and Manim Community Edition.''),
                         cachedManimPath)
                   else (Inl (Error (''Manim executable not found. Please install Manim Community Edition (e.g. ''
                                       @ [backtick] @ ''pip install manim'' @ [backtick] @ '').'')),
                         cachedManimPath)))))"

text \<open>\<^verbatim>\<open>/beta|dev/i.test(p)\<close>\<close>

definition betaOrDev :: "string \<Rightarrow> bool" where
  "betaOrDev p = (includesStr (toLowerCase p) ''beta'' \<or> includesStr (toLowerCase p) ''dev'')"

text \<open>\<^verbatim>\<open>installs.find(p => !/beta|dev/i.test(p)) || installs[0]\<close>, for a list that is not empty.\<close>

definition stableOf :: "string \<Rightarrow> string list \<Rightarrow> string" where
  "stableOf first installs =
     (case find (\<lambda>p. \<not> betaOrDev p) installs of
        Some p \<Rightarrow> if p \<noteq> [] then p else first
      | None \<Rightarrow> first)"

text \<open>The loop over the candidate names of \<^verbatim>\<open>which.sync\<close> in utils/detectChrome.js.\<close>

fun whichFirst :: "host \<Rightarrow> string list \<Rightarrow> string option" where
  "whichFirst h [] = None"
| "whichFirst h (name # names) =
     (case whichSync h name of
        Some p \<Rightarrow> Some p
      | None \<Rightarrow> whichFirst h names)"

definition chromeNotFound :: js_error where
  "chromeNotFound =
     Error ''Chrome executable not found. Please install Chrome or set CHROME_PATH environment variable.''"

text \<open>\<^verbatim>\<open>detectChrome()\<close> of utils/detectChrome.js.\<close>

definition detectChrome :: "host \<Rightarrow> string option \<Rightarrow> (js_error + string) \<times> string option" where
  "detectChrome h cachedChromePath =
     (if truthy cachedChromePath then (Inr (the cachedChromePath), cachedChromePath)
      else if truthy (envVar h ''CHROME_PATH'') \<and> accessX h (the (envVar h ''CHROME_PATH''))
      then (Inr (the (envVar h ''CHROME_PATH'')), envVar h ''CHROME_PATH'')
      else
        (case installations h of
           Some (first # others) \<Rightarrow>
             (Inr (stableOf first (first # others)), Some (stableOf first (first # others)))
         | _ \<Rightarrow>
             (case whichFirst h [''google-chrome'', ''chrome'', ''chromium''] of
                Some p \<Rightarrow> (Inr p, Some p)
              | None \<Rightarrow> (Inl chromeNotFound, cachedChromePath))))"

section \<open>The Chrome detector of the Electron application\<close>

text \<open>The table \<^verbatim>\<open>CHROME_PATHS\<close>, and \<^verbatim>\<open>CHROME_PATHS[platform] || []\<close>.\<close>

definition platformPaths :: "host \<Rightarrow> string list" where
  "platformPaths h =
     (if platform h = ''win32'' then
        [''C:/Program Files/Google/Chrome/Application/chrome.exe'',
         ''C:/Program Files (x86)/Google/Chrome/Application/chrome.exe'',
         pathJoin h [homedir h, ''AppData/Local/Google/Chrome/Application/chrome.exe''],
         ''C:/Users/*/AppData/Local/Google/Chrome/Application/chrome.exe'']
      else if platform h = ''darwin'' then
        [''/Applications/Google Chrome.app/Contents/MacOS/Google Chrome'',
         pathJoin h [homedir h, ''/Applications/Google Chrome.app/Contents/MacOS/Google Chrome''],
         ''/usr/bin/google-chrome-stable'',
         ''/usr/bin/google-chrome'']
      else if platform h = ''linux'' then
        [''/usr/bin/google-chrome-stable'',
         ''/usr/bin/google-chrome'',
         ''/usr/bin/chromium-browser'',
         ''/usr/bin/chromium'',
         ''/snap/bin/chromium'',
         pathJoin h [homedir h, ''/.local/bin/google-chrome'']]
      else [])"

text \<open>The loop over the candidate names, each result checked with \<^verbatim>\<open>checkFileExists\<close>.\<close>

fun whichChecked :: "host \<Rightarrow> string list \<Rightarrow> string option" where
  "whichChecked h [] = None"
| "whichChecked h (name # names) =
     (case whichSync h name of
        Some p \<Rightarrow> if accessX h p then Some p else whichChecked h names
      | None \<Rightarrow> whichChecked h names)"

text \<open>\<^verbatim>\<open>chromePath.split('*')[0]\<close> and \<^verbatim>\<open>chromePath.split('*')[1]\<close>, for a path with a star.\<close>

definition starBase :: "string \<Rightarrow> string" where
  "starBase p = takeWhile (\<lambda>c. c \<noteq> CHR ''*'') p"

definition starSuffix :: "string \<Rightarrow> string" where
  "starSuffix p = takeWhile (\<lambda>c. c \<noteq> CHR ''*'') (drop 1 (dropWhile (\<lambda>c. c \<noteq> CHR ''*'') p))"

fun scanDirs :: "host \<Rightarrow> string \<Rightarrow> string \<Rightarrow> string list \<Rightarrow> string option" where
  "scanDirs h basePath suffix [] = None"
| "scanDirs h basePath suffix (d # ds) =
     (if accessX h (pathJoin h [basePath, d, suffix])
      then Some (pathJoin h [basePath, d, suffix])
      else scanDirs h basePath suffix ds)"

fun scanPaths :: "host \<Rightarrow> string list \<Rightarrow> string option" where
  "scanPaths h [] = None"
| "scanPaths h (chromePath # rest) =
     (if includesStr chromePath ''*'' then
        (case readdir h (starBase chromePath) of
           None \<Rightarrow> scanPaths h rest
         | Some dirs \<Rightarrow>
             (case scanDirs h (starBase chromePath) (starSuffix chromePath) dirs of
                Some p \<Rightarrow> Some p
              | None \<Rightarrow> scanPaths h rest))
      else if accessX h chromePath then Some chromePath
      else scanPaths h rest)"

definition chromeNotFoundOn :: "host \<Rightarrow> js_error" where
  "chromeNotFoundOn h =
     Error (''Chrome executable not found on ''
            @ (if platform h = ''win32'' then ''Windows''
               else if platform h = ''darwin'' then ''macOS''
               else if platform h = ''linux'' then ''Linux''
               else platform h)
            @ '' ('' @ (if isDev h then ''development'' else ''packaged'') @ '' mode). ''
            @ ''Please install Google Chrome from https://www.google.com/chrome/ or set CHROME_PATH environment variable. ''
            @ ''Searched paths: '' @ join '', '' (platformPaths h))"

text \<open>The steps of the detector after the override, in their order.\<close>

definition launcherStep :: "host \<Rightarrow> string option" where
  "launcherStep h =
     (if isDev h then
        (case installations h of
           Some (first # others) \<Rightarrow>
             if accessX h (stableOf first (first # others))
             then Some (stableOf first (first # others)) else None
         | _ \<Rightarrow> None)
      else None)"

definition registryStep :: "host \<Rightarrow> string option" where
  "registryStep h =
     (if platform h = ''win32'' then
        (case regQuery h of
           Some regPath \<Rightarrow> if accessX h regPath then Some regPath else None
         | None \<Rightarrow> None)
      else None)"

definition detectChromeElectron :: "host \<Rightarrow> string option \<Rightarrow> (js_error + string) \<times> string option" where
  "detectChromeElectron h cachedChromePath =
     (if truthy cachedChromePath then (Inr (the cachedChromePath), cachedChromePath)
      else if truthy (envVar h ''CHROME_PATH'') \<and> accessX h (the (envVar h ''CHROME_PATH''))
      then (Inr (the (envVar h ''CHROME_PATH'')), envVar h ''CHROME_PATH'')
      else
        (case launcherStep h of
           Some p \<Rightarrow> (Inr p, Some p)
         | None \<Rightarrow>
             (case whichChecked h [''google-chrome'', ''chrome'', ''chromium'', ''google-chrome-stable''] of
                Some p \<Rightarrow> (Inr p, Some p)
              | None \<Rightarrow>
                  (case scanPaths h (platformPaths h) of
                     Some p \<Rightarrow> (Inr p, Some p)
                   | None \<Rightarrow>
                       (case registryStep h of
                          Some p \<Rightarrow> (Inr p, Some p)
                        | None \<Rightarrow> (Inl (chromeNotFoundOn h), cachedChromePath))))))"

section \<open>Runs of the request layer\<close>

text \<open>The status of a run, and the statuses it has along a sequence of turns.\<close>

definition statusOf :: "server \<Rightarrow> string \<Rightarrow> job_status option" where
  "statusOf s r = map_option status (jobs s r)"

fun statuses :: "codegen_env \<Rightarrow> server \<Rightarrow> string \<Rightarrow> event list \<Rightarrow> job_status option list" where
  "statuses env s r [] = [statusOf s r]"
| "statuses env s r (e # es) = statusOf s r # statuses env (step env s e) r es"

text \<open>
  How far the handler of a run has come: 1 while it awaits the code generator, 2 while
  the rendering is queued, 3 while the renderer runs, 4 once the job is done; 0 for a
  run that has no job, or whose handler has ended with the job still pending.
\<close>

fun taskStage :: "task option \<Rightarrow> nat" where
  "taskStage None = 0"
| "taskStage (Some (AwaitCodegen prompt engine apiKey duration)) = 1"
| "taskStage (Some (Immediate code engine duration)) = 2"
| "taskStage (Some AwaitRender) = 3"

definition stage :: "server \<Rightarrow> string \<Rightarrow> nat" where
  "stage s r =
     (case jobs s r of
        None \<Rightarrow> 0
      | Some j \<Rightarrow> if status j = Done then 4 else taskStage (tasks s r))"

text \<open>The code generator will resolve for the run, if the run still awaits it.\<close>

definition codegenResolves :: "codegen_env \<Rightarrow> server \<Rightarrow> string \<Rightarrow> bool" where
  "codegenResolves env s r =
     (case tasks s r of
        Some (AwaitCodegen prompt engine apiKey duration) \<Rightarrow>
          (case generateCode env prompt engine apiKey of Inl e \<Rightarrow> False | Inr code \<Rightarrow> True)
      | _ \<Rightarrow> True)"

text \<open>
  Invariants of the states that the server reaches.  A run with a continuation has a
  pending job.  A connection has written the first \<open>lastIndex\<close> lines of its job, in
  their order, and after them the final event if it has ended.
\<close>

definition jobInv :: "server \<Rightarrow> bool" where
  "jobInv s = (\<forall>r t. tasks s r = Some t \<longrightarrow> (\<exists>j. jobs s r = Some j \<and> status j = Pending))"

definition streamOk :: "server \<Rightarrow> stream \<Rightarrow> bool" where
  "streamOk s st =
     (case jobs s (runId st) of
        None \<Rightarrow> False
      | Some j \<Rightarrow>
          lastIndex st \<le> length (logs j)
        \<and> written st = map Data (take (lastIndex st) (logs j))
                         @ (if ended st then [DoneEvent (videoPath j)] else [])
        \<and> (ended st \<longrightarrow> \<not> polling st \<and> status j = Done))"

definition serverInv :: "server \<Rightarrow> bool" where
  "serverInv s = (jobInv s \<and> (\<forall>st \<in> set (streams s). streamOk s st))"

text \<open>The turns that are requests for a new job.\<close>

fun isRequest :: "event \<Rightarrow> bool" where
  "isRequest (PostGenerate r prompt engine apiKey duration) = True"
| "isRequest e = False"

section \<open>Concrete inputs\<close>

text \<open>The message of the validation error for a banned pattern.\<close>

definition prohibited :: "pattern \<Rightarrow> string" where
  "prohibited p = ''Generated Manim code contains prohibited construct: '' @ source p"

text \<open>A text generation API that answers every request with the same text.\<close>

definition demoApi :: "string \<Rightarrow> codegen_env" where
  "demoApi text = \<lparr>generateContent = (\<lambda>apiKey model contents. Inr text),
                   p5SystemPrompt = ''p5'', manimSystemPrompt = ''manim''\<rparr>"


definition helloText :: string where
  "helloText = ''Here is your sketch''"

definition setupText :: string where
  "setupText = ''function setup() { createCanvas(800, 600); }''"

definition videoFile :: string where
  "videoFile = ''/app/media/videos/run1/animation.mp4''"

text \<open>
  A host for the Manim renderer: the application data is in \<^verbatim>\<open>/app\<close>, Manim is found,
  and its process exits with code zero without writing anything.
\<close>

definition silentManim :: manim_env where
  "silentManim = \<lparr>userData = [''app''], detectManimResult = Inr ''/usr/bin/manim'',
                   spawnManim = (\<lambda>cmd args fs. Closed (Some 0) [] fs)\<rparr>"

text \<open>The media root \<^verbatim>\<open>/app/media/videos\<close>, holding the given entries.\<close>

definition mediaRoot :: "(string \<times> node) list \<Rightarrow> node" where
  "mediaRoot entries = Dir [(''app'', Dir [(''media'', Dir [(''videos'', Dir entries)])])]"

text \<open>
  The output directory of a render that stopped in its final assembly: only a partial
  movie file is there.
\<close>

definition partialOutDir :: node where
  "partialOutDir =
     Dir [(''videos'', Dir [(''partial_movie_files'', Dir [(''uncached_00000.mp4'', File ''frames'')])])]"



text \<open>
  A Linux host, packaged mode: \<^verbatim>\<open>CHROME_PATH\<close> is \<^verbatim>\<open>/opt/chrome\<close> and
  \<^verbatim>\<open>MANIM_PATH\<close> is \<^verbatim>\<open>/opt/manim\<close>; \<^verbatim>\<open>google-chrome\<close> and \<^verbatim>\<open>manim\<close> are on the
  PATH.  The files that can be executed are given.
\<close>

definition linuxHost :: "string list \<Rightarrow> host" where
  "linuxHost executables =
     \<lparr>envVar = (\<lambda>v. if v = ''CHROME_PATH'' then Some ''/opt/chrome''
                      else if v = ''MANIM_PATH'' then Some ''/opt/manim'' else None),
      accessX = (\<lambda>p. p \<in> set executables),
      whichSync = (\<lambda>n. if n = ''google-chrome'' then Some ''/usr/bin/google-chrome''
                         else if n = ''manim'' then Some ''/usr/bin/manim'' else None),
      installations = None,
      isDev = False,
      platform = ''linux'',
      homedir = ''/home/user'',
      readdir = (\<lambda>p. None),
      pathJoin = (\<lambda>ps. join ''/'' ps),
      regQuery = None\<rparr>"



text \<open>
  A host on which Manim is found but cannot be started: \<^verbatim>\<open>spawn\<close> emits \<^verbatim>\<open>error\<close> and
  then \<^verbatim>\<open>close\<close> with code -2.
\<close>

definition brokenManim :: manim_env where
  "brokenManim = \<lparr>userData = [''app''], detectManimResult = Inr ''/usr/bin/manim'',
                   spawnManim = (\<lambda>cmd args fs.
                     SpawnError ''spawn /usr/bin/manim ENOENT'' (Some (Some (- 2))))\<rparr>"

text \<open>The lines that a renderer gives to its log function, in order.\<close>

fun logLines :: "fs_ev list \<Rightarrow> string list" where
  "logLines [] = []"
| "logLines (Log msg # t) = msg # logLines t"
| "logLines (_ # t) = logLines t"

section \<open>Properties of the code generator and of the request layer\<close>


lemma idle_step:
  assumes "tasks s r = None" "jobs s r \<noteq> None" "newId s e"
  shows "tasks (step env s e) r = None \<and> jobs (step env s e) r \<noteq> None
         \<and> filter (\<lambda>c. call_run c = r) (renderCalls (step env s e))
             = filter (\<lambda>c. call_run c = r) (renderCalls s)"
proof (cases e)
  case (PostGenerate r' prompt engine apiKey duration)
  with assms have "r' \<noteq> r" by auto
  with assms PostGenerate show ?thesis by (simp add: postGenerate_def)
next
  case (CodegenSettles r')
  with assms show ?thesis
    by (cases "r' = r")
       (auto simp: codegenSettles_def pushLog_def split: option.splits task.splits sum.splits)
next
  case (RunImmediate r')
  with assms show ?thesis
    by (cases "r' = r")
       (auto simp: runImmediate_def pushLog_def failJob_def Let_def split: option.splits task.splits)
next
  case (RenderLog r' msg)
  with assms show ?thesis
    by (cases "r' = r") (auto simp: renderLog_def pushLog_def split: option.splits task.splits)
next
  case (RenderSettles r' out)
  with assms show ?thesis
    by (cases "r' = r")
       (auto simp: renderSettles_def finishJob_def failJob_def split: option.splits task.splits sum.splits)
next
  case (GetLogs r')
  with assms show ?thesis by (auto simp: getLogs_def split: option.splits)
next
  case (Tick i)
  with assms show ?thesis by (auto simp: tick_def Let_def split: option.splits)
next
  case (CloseStream i)
  with assms show ?thesis by (auto simp: closeStream_def)
qed

lemma idle_exec:
  assumes "tasks s r = None" "jobs s r \<noteq> None" "uuidFresh env s es"
  shows "tasks (exec env s es) r = None \<and> jobs (exec env s es) r \<noteq> None
         \<and> filter (\<lambda>c. call_run c = r) (renderCalls (exec env s es))
             = filter (\<lambda>c. call_run c = r) (renderCalls s)"
  using assms
proof (induction es arbitrary: s)
  case Nil
  then show ?case by (simp add: exec_def)
next
  case (Cons e es)
  from Cons.prems have n: "newId s e" and f: "uuidFresh env (step env s e) es" by simp_all
  from idle_step [OF Cons.prems(1,2) n, of env]
  have st: "tasks (step env s e) r = None" "jobs (step env s e) r \<noteq> None"
    "filter (\<lambda>c. call_run c = r) (renderCalls (step env s e))
             = filter (\<lambda>c. call_run c = r) (renderCalls s)" by simp_all
  from Cons.IH [OF st(1,2) f] st(3) show ?case by (simp add: exec_def)
qed

lemma startsWith_iff: "startsWith s p \<longleftrightarrow> (\<exists>t. s = p @ t)"
  by (induction s p rule: startsWith.induct) auto

lemma includesStr_iff: "includesStr s p \<longleftrightarrow> (\<exists>before after. s = before @ p @ after)"
proof (induction s)
  case Nil
  then show ?case by (auto simp: startsWith_iff)
next
  case (Cons c cs)
  show ?case
  proof
    assume "includesStr (c # cs) p"
    then consider "startsWith (c # cs) p" | "includesStr cs p" by auto
    then show "\<exists>before after. c # cs = before @ p @ after"
    proof cases
      case 1
      then obtain t where "c # cs = [] @ p @ t" by (auto simp: startsWith_iff)
      then show ?thesis by blast
    next
      case 2
      with Cons obtain before after where "cs = before @ p @ after" by auto
      then have "c # cs = (c # before) @ p @ after" by simp
      then show ?thesis by blast
    qed
  next
    assume "\<exists>before after. c # cs = before @ p @ after"
    then obtain before after where e: "c # cs = before @ p @ after" by auto
    show "includesStr (c # cs) p"
    proof (cases before)
      case Nil
      with e have "startsWith (c # cs) p" by (auto simp: startsWith_iff)
      then show ?thesis by simp
    next
      case (Cons b bs)
      with e have "cs = bs @ p @ after" by simp
      with Cons.IH have "includesStr cs p" by auto
      then show ?thesis by simp
    qed
  qed
qed

lemma match_here_lit: "match_here (Lit l # r) (l @ s) = match_here r s"
  by (simp add: startsWith_iff)

lemma match_here_ws_star:
  "\<forall>c \<in> set ws. is_ws c \<Longrightarrow> match_here r s \<Longrightarrow> match_here (WsStar # r) (ws @ s)"
proof (induction ws)
  case Nil
  then show ?case by (cases s) simp_all
next
  case (Cons w ws)
  then show ?case by simp
qed

lemma match_here_ws_plus:
  "ws \<noteq> [] \<Longrightarrow> \<forall>c \<in> set ws. is_ws c \<Longrightarrow> match_here r s \<Longrightarrow> match_here (WsPlus # r) (ws @ s)"
  by (cases ws) (simp_all add: match_here_ws_star)

lemma regex_test_at: "match_here r s \<Longrightarrow> regex_test r (before @ s)"
proof (induction before)
  case Nil
  then show ?case by (cases s) simp_all
next
  case (Cons b before)
  then show ?case by simp
qed

lemma call_pattern_matches:
  assumes "\<forall>c \<in> set ws. is_ws c"
  shows "regex_test [Lit name, WsStar, Lit ''(''] (before @ name @ ws @ ''('' @ after)"
proof -
  have "match_here [Lit ''(''] (''('' @ after)" by (simp add: startsWith_iff)
  then have "match_here [WsStar, Lit ''(''] (ws @ ''('' @ after)"
    using assms by (rule match_here_ws_star [rotated])
  then have "match_here [Lit name, WsStar, Lit ''(''] (name @ ws @ ''('' @ after)"
    by (simp only: match_here_lit)
  then show ?thesis by (rule regex_test_at)
qed

lemma import_pattern_matches:
  assumes "ws \<noteq> []" "\<forall>c \<in> set ws. is_ws c"
  shows "regex_test [Lit ''import'', WsPlus, Lit m] (before @ ''import'' @ ws @ m @ after)"
proof -
  have "match_here [Lit m] (m @ after)" by (simp add: startsWith_iff)
  then have "match_here [WsPlus, Lit m] (ws @ m @ after)"
    using assms by (intro match_here_ws_plus)
  then have "match_here [Lit ''import'', WsPlus, Lit m] (''import'' @ ws @ m @ after)"
    by (simp only: match_here_lit)
  then show ?thesis by (rule regex_test_at)
qed

lemma literal_pattern_matches: "regex_test [Lit l] s = includesStr s l"
proof (induction s)
  case Nil
  then show ?case by simp
next
  case (Cons c cs)
  then show ?case by simp
qed

lemma axes_call_is_banned:
  assumes "\<forall>c \<in> set ws. is_ws c"
  shows "\<exists>p \<in> set bannedPatterns. regex_test (atoms p) (before @ ''Axes'' @ ws @ ''('' @ after)"
proof -
  have "regex_test (atoms (hd bannedPatterns)) (before @ ''Axes'' @ ws @ ''('' @ after)"
    using call_pattern_matches [OF assms, of "''Axes''" before after]
    by (simp add: bannedPatterns_def)
  moreover have "hd bannedPatterns \<in> set bannedPatterns" by (simp add: bannedPatterns_def)
  ultimately show ?thesis by blast
qed

lemma sendLogs_eq:
  "sendLogs ls st =
     st\<lparr>written := written st @ map Data (drop (lastIndex st) ls),
        lastIndex := max (lastIndex st) (length ls)\<rparr>"
proof (induction ls st rule: sendLogs.induct)
  case (1 allLogs st)
  show ?case
  proof (cases "lastIndex st < length allLogs")
    case True
    have d: "drop (lastIndex st) allLogs = allLogs ! lastIndex st # drop (Suc (lastIndex st)) allLogs"
      using True by (simp add: Cons_nth_drop_Suc)
    have m: "max (Suc (lastIndex st)) (length allLogs) = max (lastIndex st) (length allLogs)"
      using True by simp
    show ?thesis
      using True "1.IH" [OF True] by (subst sendLogs.simps) (simp add: d m)
  next
    case False
    then show ?thesis by (subst sendLogs.simps) (simp add: max_def)
  qed
qed

lemma job_evolves:
  assumes "jobInv s" "newId s e" "jobs s r = Some j"
  shows "\<exists>j' ys. jobs (step env s e) r = Some j' \<and> logs j' = logs j @ ys
            \<and> (status j = Done \<longrightarrow> status j' = Done \<and> videoPath j' = videoPath j)"
proof (cases e)
  case (PostGenerate r' prompt engine apiKey duration)
  with assms have "r' \<noteq> r" by auto
  with assms PostGenerate show ?thesis by (simp add: postGenerate_def)
next
  case (CodegenSettles r')
  show ?thesis
  proof (cases "r' = r")
    case True
    with assms CodegenSettles show ?thesis
      by (auto simp: codegenSettles_def pushLog_def jobInv_def
               split: option.splits task.splits sum.splits)
  next
    case False
    with assms CodegenSettles show ?thesis
      by (auto simp: codegenSettles_def pushLog_def split: option.splits task.splits sum.splits)
  qed
next
  case (RunImmediate r')
  show ?thesis
  proof (cases "r' = r")
    case True
    with assms RunImmediate show ?thesis
      by (auto simp: runImmediate_def pushLog_def failJob_def Let_def jobInv_def
               split: option.splits task.splits)
  next
    case False
    with assms RunImmediate show ?thesis
      by (auto simp: runImmediate_def pushLog_def failJob_def Let_def
               split: option.splits task.splits)
  qed
next
  case (RenderLog r' msg)
  show ?thesis
  proof (cases "r' = r")
    case True
    with assms RenderLog show ?thesis
      by (auto simp: renderLog_def pushLog_def jobInv_def split: option.splits task.splits)
  next
    case False
    with assms RenderLog show ?thesis
      by (auto simp: renderLog_def pushLog_def split: option.splits task.splits)
  qed
next
  case (RenderSettles r' out)
  show ?thesis
  proof (cases "r' = r")
    case True
    with assms RenderSettles show ?thesis
      by (auto simp: renderSettles_def finishJob_def failJob_def jobInv_def
               split: option.splits task.splits sum.splits)
  next
    case False
    with assms RenderSettles show ?thesis
      by (auto simp: renderSettles_def finishJob_def failJob_def
               split: option.splits task.splits sum.splits)
  qed
next
  case (GetLogs r')
  with assms show ?thesis by (auto simp: getLogs_def split: option.splits)
next
  case (Tick i)
  with assms show ?thesis by (auto simp: tick_def Let_def split: option.splits)
next
  case (CloseStream i)
  with assms show ?thesis by (auto simp: closeStream_def)
qed

lemma jobInv_step:
  assumes "jobInv s" "newId s e"
  shows "jobInv (step env s e)"
proof (cases e)
  case (PostGenerate r' prompt engine apiKey duration)
  with assms show ?thesis by (auto simp: jobInv_def postGenerate_def)
next
  case (CodegenSettles r')
  with assms show ?thesis
    by (auto simp: jobInv_def codegenSettles_def pushLog_def
             split: option.splits task.splits sum.splits if_splits)
next
  case (RunImmediate r')
  with assms show ?thesis
    by (auto simp: jobInv_def runImmediate_def pushLog_def failJob_def Let_def
             split: option.splits task.splits if_splits)
next
  case (RenderLog r' msg)
  with assms show ?thesis
    by (auto simp: jobInv_def renderLog_def pushLog_def split: option.splits task.splits if_splits)
next
  case (RenderSettles r' out)
  with assms show ?thesis
    by (auto simp: jobInv_def renderSettles_def finishJob_def failJob_def
             split: option.splits task.splits sum.splits if_splits)
next
  case (GetLogs r')
  with assms show ?thesis by (auto simp: jobInv_def getLogs_def split: option.splits)
next
  case (Tick i)
  with assms show ?thesis by (auto simp: jobInv_def tick_def Let_def split: option.splits)
next
  case (CloseStream i)
  with assms show ?thesis by (auto simp: jobInv_def closeStream_def)
qed

lemma streamOk_evolve:
  assumes ok: "streamOk s st"
    and j: "jobs s (runId st) = Some j"
    and j': "jobs s' (runId st) = Some j'"
    and ext: "logs j' = logs j @ ys"
    and frozen: "status j = Done \<longrightarrow> status j' = Done \<and> videoPath j' = videoPath j"
  shows "streamOk s' st"
proof (cases "ended st")
  case True
  with ok j have d: "status j = Done" and le: "lastIndex st \<le> length (logs j)"
    and w: "written st = map Data (take (lastIndex st) (logs j)) @ [DoneEvent (videoPath j)]"
    and np: "\<not> polling st"
    by (simp_all add: streamOk_def)
  from d frozen have f: "status j' = Done" "videoPath j' = videoPath j" by simp_all
  from le have "take (lastIndex st) (logs j @ ys) = take (lastIndex st) (logs j)" by simp
  with le w np f True j' ext show ?thesis by (simp add: streamOk_def)
next
  case False
  with ok j have le: "lastIndex st \<le> length (logs j)"
    and w: "written st = map Data (take (lastIndex st) (logs j))"
    by (simp_all add: streamOk_def)
  from le have "take (lastIndex st) (logs j @ ys) = take (lastIndex st) (logs j)" by simp
  with le w False j' ext show ?thesis by (simp add: streamOk_def)
qed

lemma streamOk_same_jobs:
  "jobs s' = jobs s \<Longrightarrow> streamOk s' st = streamOk s st"
  by (simp add: streamOk_def)

lemma streams_kept:
  "streams (step env s (PostGenerate r prompt engine apiKey duration)) = streams s"
  "streams (step env s (CodegenSettles r)) = streams s"
  "streams (step env s (RunImmediate r)) = streams s"
  "streams (step env s (RenderLog r msg)) = streams s"
  "streams (step env s (RenderSettles r out)) = streams s"
  by (auto simp: postGenerate_def codegenSettles_def runImmediate_def renderLog_def
        renderSettles_def pushLog_def failJob_def finishJob_def Let_def
      split: option.splits task.splits sum.splits)

lemma jobs_kept:
  "jobs (step env s (Tick i)) = jobs s"
  "jobs (step env s (CloseStream i)) = jobs s"
  "jobs (step env s (GetLogs r)) = jobs s"
  by (auto simp: tick_def closeStream_def getLogs_def Let_def split: option.splits)

lemma streamOk_fresh_stream:
  assumes "jobs s r = Some j"
  shows "streamOk s (sendLogs (logs j)
            \<lparr>runId = r, lastIndex = 0, written = [], polling = True, ended = False\<rparr>)"
  using assms by (simp add: streamOk_def sendLogs_eq)

lemma streamOk_tick:
  assumes ok: "streamOk s st" and p: "polling st" and j: "jobs s (runId st) = Some j"
  shows "streamOk s (sendLogs (logs j) st)"
    and "streamOk s ((sendLogs (logs j) st)
            \<lparr>written := written (sendLogs (logs j) st) @ [DoneEvent (videoPath j)],
             polling := False, ended := True\<rparr>) = (status j = Done)"
    and "written (sendLogs (logs j) st) = map Data (logs j)"
proof -
  from ok p j have ne: "\<not> ended st" and le: "lastIndex st \<le> length (logs j)"
    and w: "written st = map Data (take (lastIndex st) (logs j))"
    by (auto simp: streamOk_def)
  have all: "map Data (take (lastIndex st) (logs j)) @ map Data (drop (lastIndex st) (logs j))
               = map Data (logs j)"
    by (simp flip: map_append)
  have m: "max (lastIndex st) (length (logs j)) = length (logs j)" using le by simp
  show "streamOk s (sendLogs (logs j) st)"
    using j ne w all m by (simp add: streamOk_def sendLogs_eq)
  show "streamOk s ((sendLogs (logs j) st)
            \<lparr>written := written (sendLogs (logs j) st) @ [DoneEvent (videoPath j)],
             polling := False, ended := True\<rparr>) = (status j = Done)"
    using j ne w all m by (simp add: streamOk_def sendLogs_eq)
  show "written (sendLogs (logs j) st) = map Data (logs j)"
    using w all by (simp add: sendLogs_eq)
qed

lemma serverInv_step:
  assumes inv: "serverInv s" and new: "newId s e"
  shows "serverInv (step env s e)"
proof -
  from inv have ji: "jobInv s" and so: "\<And>st. st \<in> set (streams s) \<Longrightarrow> streamOk s st"
    by (simp_all add: serverInv_def)
  have ji': "jobInv (step env s e)" by (rule jobInv_step [OF ji new])
  have "streamOk (step env s e) st" if mem: "st \<in> set (streams (step env s e))" for st
  proof (cases e)
    case (GetLogs r)
    show ?thesis
    proof (cases "jobs s r")
      case None
      with GetLogs mem so show ?thesis by (simp add: getLogs_def streamOk_def)
    next
      case (Some j)
      have same: "jobs (step env s e) = jobs s" using GetLogs Some by (simp add: getLogs_def)
      from mem GetLogs Some
      have "st \<in> set (streams s) \<or>
            st = sendLogs (logs j) \<lparr>runId = r, lastIndex = 0, written = [], polling = True, ended = False\<rparr>"
        by (auto simp: getLogs_def)
      then show ?thesis
        using so streamOk_fresh_stream [OF Some] by (auto simp: streamOk_same_jobs [OF same])
    qed
  next
    case (Tick i)
    have same: "jobs (step env s e) = jobs s" unfolding Tick by (rule jobs_kept)
    show ?thesis
    proof (cases "i < length (streams s) \<and> polling (streams s ! i)")
      case False
      with Tick mem so show ?thesis by (auto simp: tick_def streamOk_same_jobs [OF same])
    next
      case True
      then have old: "streamOk s (streams s ! i)" and p: "polling (streams s ! i)"
        using so by simp_all
      from old obtain j where j: "jobs s (runId (streams s ! i)) = Some j"
        by (auto simp: streamOk_def split: option.splits)
      note t = streamOk_tick [OF old p j]
      from mem Tick True j
      have "st \<in> set (streams s) \<or> (status j \<noteq> Done \<and> st = sendLogs (logs j) (streams s ! i))
            \<or> (status j = Done \<and> st = (sendLogs (logs j) (streams s ! i))
                  \<lparr>written := written (sendLogs (logs j) (streams s ! i)) @ [DoneEvent (videoPath j)],
                   polling := False, ended := True\<rparr>)"
        by (cases "status j = Done") (auto simp: tick_def Let_def dest: set_update_subset_insert [THEN subsetD])
      then show ?thesis
        using so t(1) t(2) by (auto simp: streamOk_same_jobs [OF same])
    qed
  next
    case (CloseStream i)
    have same: "jobs (step env s e) = jobs s" unfolding CloseStream by (rule jobs_kept)
    from mem CloseStream
    have "st \<in> set (streams s) \<or> (i < length (streams s) \<and> st = (streams s ! i)\<lparr>polling := False\<rparr>)"
      by (auto simp: closeStream_def split: if_splits dest: set_update_subset_insert [THEN subsetD])
    moreover have "streamOk s ((streams s ! i)\<lparr>polling := False\<rparr>)" if "i < length (streams s)"
      using so [of "streams s ! i"] that by (auto simp: streamOk_def split: option.splits)
    ultimately show ?thesis using so by (auto simp: streamOk_same_jobs [OF same])
  next
    case (PostGenerate r' prompt engine apiKey duration)
    then have keep: "streams (step env s e) = streams s" by (simp only: streams_kept)
    with mem have old: "streamOk s st" using so by simp
    then obtain j where j: "jobs s (runId st) = Some j"
      by (auto simp: streamOk_def split: option.splits)
    from job_evolves [OF ji new j, of env] obtain j' ys where
      "jobs (step env s e) (runId st) = Some j'" "logs j' = logs j @ ys" "status j = Done \<longrightarrow> status j' = Done \<and> videoPath j' = videoPath j"
      by blast
    then show ?thesis by (rule streamOk_evolve [OF old j])
  next
    case (CodegenSettles r')
    then have keep: "streams (step env s e) = streams s" by (simp only: streams_kept)
    with mem have old: "streamOk s st" using so by simp
    then obtain j where j: "jobs s (runId st) = Some j"
      by (auto simp: streamOk_def split: option.splits)
    from job_evolves [OF ji new j, of env] obtain j' ys where
      "jobs (step env s e) (runId st) = Some j'" "logs j' = logs j @ ys" "status j = Done \<longrightarrow> status j' = Done \<and> videoPath j' = videoPath j"
      by blast
    then show ?thesis by (rule streamOk_evolve [OF old j])
  next
    case (RunImmediate r')
    then have keep: "streams (step env s e) = streams s" by (simp only: streams_kept)
    with mem have old: "streamOk s st" using so by simp
    then obtain j where j: "jobs s (runId st) = Some j"
      by (auto simp: streamOk_def split: option.splits)
    from job_evolves [OF ji new j, of env] obtain j' ys where
      "jobs (step env s e) (runId st) = Some j'" "logs j' = logs j @ ys" "status j = Done \<longrightarrow> status j' = Done \<and> videoPath j' = videoPath j"
      by blast
    then show ?thesis by (rule streamOk_evolve [OF old j])
  next
    case (RenderLog r' msg)
    then have keep: "streams (step env s e) = streams s" by (simp only: streams_kept)
    with mem have old: "streamOk s st" using so by simp
    then obtain j where j: "jobs s (runId st) = Some j"
      by (auto simp: streamOk_def split: option.splits)
    from job_evolves [OF ji new j, of env] obtain j' ys where
      "jobs (step env s e) (runId st) = Some j'" "logs j' = logs j @ ys" "status j = Done \<longrightarrow> status j' = Done \<and> videoPath j' = videoPath j"
      by blast
    then show ?thesis by (rule streamOk_evolve [OF old j])
  next
    case (RenderSettles r' out)
    then have keep: "streams (step env s e) = streams s" by (simp only: streams_kept)
    with mem have old: "streamOk s st" using so by simp
    then obtain j where j: "jobs s (runId st) = Some j"
      by (auto simp: streamOk_def split: option.splits)
    from job_evolves [OF ji new j, of env] obtain j' ys where
      "jobs (step env s e) (runId st) = Some j'" "logs j' = logs j @ ys" "status j = Done \<longrightarrow> status j' = Done \<and> videoPath j' = videoPath j"
      by blast
    then show ?thesis by (rule streamOk_evolve [OF old j])
  qed
  with ji' show ?thesis by (simp add: serverInv_def)
qed

lemma serverInv_init: "serverInv init"
  by (simp add: serverInv_def jobInv_def init_def)

lemma exec_Cons: "exec env s (e # es) = exec env (step env s e) es"
  by (simp add: exec_def)

lemma exec_append: "exec env s (xs @ ys) = exec env (exec env s xs) ys"
  by (simp add: exec_def)

lemma uuidFresh_append:
  "uuidFresh env s (xs @ ys) = (uuidFresh env s xs \<and> uuidFresh env (exec env s xs) ys)"
  by (induction xs arbitrary: s) (simp_all add: exec_def)

lemma serverInv_exec:
  "serverInv s \<Longrightarrow> uuidFresh env s es \<Longrightarrow> serverInv (exec env s es)"
proof (induction es arbitrary: s)
  case Nil
  then show ?case by (simp add: exec_def)
next
  case (Cons e es)
  then show ?case by (simp add: exec_Cons serverInv_step)
qed

lemma done_stable_step:
  assumes "statusOf s r = Some Done" "newId s e"
  shows "statusOf (step env s e) r = Some Done"
proof (cases e)
  case (PostGenerate r' prompt engine apiKey duration)
  with assms have "r' \<noteq> r" by (auto simp: statusOf_def)
  with assms PostGenerate show ?thesis by (simp add: statusOf_def postGenerate_def)
next
  case (CodegenSettles r')
  with assms show ?thesis
    by (auto simp: statusOf_def codegenSettles_def pushLog_def
             split: option.splits task.splits sum.splits)
next
  case (RunImmediate r')
  with assms show ?thesis
    by (auto simp: statusOf_def runImmediate_def pushLog_def failJob_def Let_def
             split: option.splits task.splits)
next
  case (RenderLog r' msg)
  with assms show ?thesis
    by (auto simp: statusOf_def renderLog_def pushLog_def split: option.splits task.splits)
next
  case (RenderSettles r' out)
  with assms show ?thesis
    by (auto simp: statusOf_def renderSettles_def finishJob_def failJob_def
             split: option.splits task.splits sum.splits)
next
  case (GetLogs r')
  with assms show ?thesis unfolding statusOf_def GetLogs by (simp only: jobs_kept)
next
  case (Tick i)
  with assms show ?thesis unfolding statusOf_def Tick by (simp only: jobs_kept)
next
  case (CloseStream i)
  with assms show ?thesis unfolding statusOf_def CloseStream by (simp only: jobs_kept)
qed

lemma job_kept_step:
  assumes "jobs s r \<noteq> None" "newId s e"
  shows "jobs (step env s e) r \<noteq> None"
proof (cases e)
  case (PostGenerate r' prompt engine apiKey duration)
  with assms show ?thesis by (simp add: postGenerate_def)
next
  case (CodegenSettles r')
  with assms show ?thesis
    by (auto simp: codegenSettles_def pushLog_def split: option.splits task.splits sum.splits)
next
  case (RunImmediate r')
  with assms show ?thesis
    by (auto simp: runImmediate_def pushLog_def failJob_def Let_def
             split: option.splits task.splits if_splits)
next
  case (RenderLog r' msg)
  with assms show ?thesis
    by (auto simp: renderLog_def pushLog_def split: option.splits task.splits if_splits)
next
  case (RenderSettles r' out)
  with assms show ?thesis
    by (auto simp: renderSettles_def finishJob_def failJob_def
             split: option.splits task.splits sum.splits if_splits)
next
  case (GetLogs r')
  show ?thesis unfolding GetLogs jobs_kept by (rule assms(1))
next
  case (Tick i)
  show ?thesis unfolding Tick jobs_kept by (rule assms(1))
next
  case (CloseStream i)
  show ?thesis unfolding CloseStream jobs_kept by (rule assms(1))
qed

lemma statuses_all_done:
  "statusOf s r = Some Done \<Longrightarrow> uuidFresh env s es \<Longrightarrow>
     statuses env s r es = replicate (Suc (length es)) (Some Done)"
proof (induction es arbitrary: s)
  case Nil
  then show ?case by simp
next
  case (Cons e es)
  then show ?case by (simp add: done_stable_step)
qed

lemma statuses_shape:
  "jobs s r \<noteq> None \<Longrightarrow> uuidFresh env s es \<Longrightarrow>
     \<exists>n m. statuses env s r es = replicate n (Some Pending) @ replicate m (Some Done)"
proof (induction es arbitrary: s)
  case Nil
  then obtain j where j: "jobs s r = Some j" by auto
  show ?case
  proof (cases "status j")
    case Pending
    with j have "statuses env s r [] = replicate 1 (Some Pending) @ replicate 0 (Some Done)"
      by (simp add: statusOf_def)
    then show ?thesis by blast
  next
    case Done
    with j have "statuses env s r [] = replicate 0 (Some Pending) @ replicate 1 (Some Done)"
      by (simp add: statusOf_def)
    then show ?thesis by blast
  qed
next
  case (Cons e es)
  then obtain j where j: "jobs s r = Some j" by auto
  from Cons.prems have n: "newId s e" and f: "uuidFresh env (step env s e) es" by simp_all
  show ?case
  proof (cases "status j")
    case Pending
    from Cons.IH [OF job_kept_step [OF Cons.prems(1) n] f] obtain n m where
      "statuses env (step env s e) r es = replicate n (Some Pending) @ replicate m (Some Done)"
      by blast
    with j Pending have "statuses env s r (e # es)
        = replicate (Suc n) (Some Pending) @ replicate m (Some Done)"
      by (simp add: statusOf_def)
    then show ?thesis by blast
  next
    case Done
    with j have "statusOf s r = Some Done" by (simp add: statusOf_def)
    from statuses_all_done [OF this Cons.prems(2)]
    have "statuses env s r (e # es)
        = replicate 0 (Some Pending) @ replicate (Suc (length (e # es))) (Some Done)"
      by simp
    then show ?thesis by blast
  qed
qed

lemma stage_done: "stage s r = 4 \<longleftrightarrow> statusOf s r = Some Done"
proof (cases "jobs s r")
  case None
  then show ?thesis by (simp add: stage_def statusOf_def)
next
  case (Some j)
  have "taskStage t \<noteq> 4" for t by (cases t rule: taskStage.cases) simp_all
  with Some show ?thesis by (simp add: stage_def statusOf_def)
qed

lemma stage_step:
  assumes res: "codegenResolves env s r" and st: "1 \<le> stage s r" and new: "newId s e"
  shows "codegenResolves env (step env s e) r \<and> stage s r \<le> stage (step env s e) r"
proof -
  from st obtain j where j: "jobs s r = Some j"
    by (auto simp: stage_def split: option.splits)
  show ?thesis
  proof (cases e)
    case (PostGenerate r' prompt engine apiKey duration)
    with new j have "r' \<noteq> r" by auto
    with res j PostGenerate show ?thesis
      by (simp add: postGenerate_def stage_def codegenResolves_def)
  next
    case (CodegenSettles r')
    show ?thesis
    proof (cases "r' = r")
      case True
      with res st j CodegenSettles show ?thesis
        by (cases "tasks s r" rule: taskStage.cases)
           (auto simp: codegenSettles_def pushLog_def stage_def codegenResolves_def
                 split: sum.splits)
    next
      case False
      with res j CodegenSettles show ?thesis
        by (auto simp: codegenSettles_def pushLog_def stage_def codegenResolves_def
                 split: option.splits task.splits sum.splits)
    qed
  next
    case (RunImmediate r')
    show ?thesis
    proof (cases "r' = r")
      case True
      with res st j RunImmediate show ?thesis
        by (cases "tasks s r" rule: taskStage.cases)
           (auto simp: runImmediate_def pushLog_def failJob_def Let_def stage_def codegenResolves_def)
    next
      case False
      with res j RunImmediate show ?thesis
        by (auto simp: runImmediate_def pushLog_def failJob_def Let_def stage_def codegenResolves_def
                 split: option.splits task.splits)
    qed
  next
    case (RenderLog r' msg)
    show ?thesis
    proof (cases "r' = r")
      case True
      with res st j RenderLog show ?thesis
        by (cases "tasks s r" rule: taskStage.cases)
           (auto simp: renderLog_def pushLog_def stage_def codegenResolves_def)
    next
      case False
      with res j RenderLog show ?thesis
        by (auto simp: renderLog_def pushLog_def stage_def codegenResolves_def
                 split: option.splits task.splits)
    qed
  next
    case (RenderSettles r' out)
    show ?thesis
    proof (cases "r' = r")
      case True
      with res st j RenderSettles show ?thesis
        by (cases "tasks s r" rule: taskStage.cases)
           (auto simp: renderSettles_def finishJob_def failJob_def stage_def codegenResolves_def
                 split: sum.splits)
    next
      case False
      with res j RenderSettles show ?thesis
        by (auto simp: renderSettles_def finishJob_def failJob_def stage_def codegenResolves_def
                 split: option.splits task.splits sum.splits)
    qed
  next
    case (GetLogs r')
    with res show ?thesis
      by (auto simp: getLogs_def stage_def codegenResolves_def split: option.splits)
  next
    case (Tick i)
    with res show ?thesis
      by (auto simp: tick_def Let_def stage_def codegenResolves_def split: option.splits)
  next
    case (CloseStream i)
    with res show ?thesis
      by (auto simp: closeStream_def stage_def codegenResolves_def split: option.splits)
  qed
qed

lemma stage_exec:
  "codegenResolves env s r \<Longrightarrow> 1 \<le> stage s r \<Longrightarrow> uuidFresh env s es \<Longrightarrow>
     codegenResolves env (exec env s es) r \<and> stage s r \<le> stage (exec env s es) r"
proof (induction es arbitrary: s)
  case Nil
  then show ?case by (simp add: exec_def)
next
  case (Cons e es)
  from Cons.prems have n: "newId s e" and f: "uuidFresh env (step env s e) es" by simp_all
  from stage_step [OF Cons.prems(1,2) n]
  have a: "codegenResolves env (step env s e) r" and b: "stage s r \<le> stage (step env s e) r"
    by simp_all
  from b Cons.prems(2) have c: "1 \<le> stage (step env s e) r" by simp
  from Cons.IH [OF a c f] b show ?case by (simp add: exec_Cons)
qed

lemma stage_codegen:
  assumes "codegenResolves env s r" "1 \<le> stage s r"
  shows "2 \<le> stage (step env s (CodegenSettles r)) r"
  using assms
  by (cases "tasks s r" rule: taskStage.cases)
     (auto simp: codegenSettles_def pushLog_def stage_def codegenResolves_def
           split: sum.splits option.splits if_splits)

lemma stage_immediate:
  assumes "2 \<le> stage s r"
  shows "3 \<le> stage (step env s (RunImmediate r)) r"
  using assms
  by (cases "tasks s r" rule: taskStage.cases)
     (auto simp: runImmediate_def pushLog_def failJob_def Let_def stage_def
           split: option.splits if_splits)

lemma stage_settle:
  assumes "3 \<le> stage s r"
  shows "stage (step env s (RenderSettles r out)) r = 4"
  using assms
  by (cases "tasks s r" rule: taskStage.cases)
     (auto simp: renderSettles_def finishJob_def failJob_def stage_def
           split: option.splits if_splits sum.splits)

lemma codegen_rejected_step:
  assumes "tasks s r = Some (AwaitCodegen prompt engine apiKey duration)"
    and "generateCode env prompt engine apiKey = Inl e"
  shows "codegenSettles env r s =
           s\<lparr>tasks := (tasks s)(r := None), responses := (responses s)(r \<mapsto> Status400 (message e))\<rparr>"
  using assms by (simp add: codegenSettles_def)

lemma rejected_never_rendered:
  assumes waiting: "tasks s r = Some (AwaitCodegen prompt engine apiKey duration)"
    and job: "jobs s r = Some j"
    and rejected: "generateCode env prompt engine apiKey = Inl e"
    and fresh: "uuidFresh env (step env s (CodegenSettles r)) es"
  shows "responses (step env s (CodegenSettles r)) r = Some (Status400 (message e))
       \<and> tasks (step env s (CodegenSettles r)) r = None
       \<and> renderCalls (step env s (CodegenSettles r)) = renderCalls s
       \<and> filter (\<lambda>c. call_run c = r) (renderCalls (exec env (step env s (CodegenSettles r)) es))
           = filter (\<lambda>c. call_run c = r) (renderCalls s)"
proof -
  let ?s = "step env s (CodegenSettles r)"
  have eq: "?s = s\<lparr>tasks := (tasks s)(r := None),
                    responses := (responses s)(r \<mapsto> Status400 (message e))\<rparr>"
    using codegen_rejected_step [OF waiting rejected] by simp
  have t: "tasks ?s r = None" and jb: "jobs ?s r \<noteq> None" and rc: "renderCalls ?s = renderCalls s"
    and rs: "responses ?s r = Some (Status400 (message e))"
    unfolding eq using job by simp_all
  from idle_exec [OF t jb fresh] rc t rs show ?thesis by simp
qed




text \<open>
  Claim C7.  When the text generation API answers a p5 request with a text whose cleaned
  and trimmed code does not start with \<^verbatim>\<open>function setup()\<close>, \<open>generateCode\<close> rejects
  with the validation error; the handler answers 400, and neither this turn nor any later
  one calls a renderer for this run.
\<close>

theorem p5_code_without_setup_is_rejected:
  assumes api: "generateContent env apiKey ''gemini-2.0-flash''
                  (join newline [p5SystemPrompt env, ''Sketch description: '' @ prompt]) = Inr raw"
    and bad: "\<not> startsWith (trim (cleanCode raw)) ''function setup()''"
    and waiting: "tasks s r = Some (AwaitCodegen prompt ''p5'' apiKey duration)"
    and job: "jobs s r = Some j"
    and fresh: "uuidFresh env (step env s (CodegenSettles r)) es"
  shows "generateCode env prompt ''p5'' apiKey =
           Inl (Error (''Invalid p5.js generation: must start with '' @ quote @ ''function setup()'' @ quote))
         \<and> responses (step env s (CodegenSettles r)) r =
             Some (Status400 (''Invalid p5.js generation: must start with '' @ quote @ ''function setup()'' @ quote))
         \<and> tasks (step env s (CodegenSettles r)) r = None
         \<and> renderCalls (step env s (CodegenSettles r)) = renderCalls s
         \<and> filter (\<lambda>c. call_run c = r) (renderCalls (exec env (step env s (CodegenSettles r)) es))
             = filter (\<lambda>c. call_run c = r) (renderCalls s)"
proof -
  have gen: "generateCode env prompt ''p5'' apiKey =
           Inl (Error (''Invalid p5.js generation: must start with '' @ quote @ ''function setup()'' @ quote))"
    using api bad by (simp add: generateCode_def checkResponse_def validateGeneratedCode_def)
  from rejected_never_rendered [OF waiting job gen fresh] gen
  show ?thesis by simp
qed

lemma rejected_step:
  assumes p: "statusOf s r = Some Pending"
    and t: "tasks s r = None \<or> tasks s r = Some (AwaitCodegen prompt engine apiKey duration)"
    and rej: "generateCode env prompt engine apiKey = Inl err"
    and new: "newId s e"
  shows "statusOf (step env s e) r = Some Pending
       \<and> (tasks (step env s e) r = None
          \<or> tasks (step env s e) r = Some (AwaitCodegen prompt engine apiKey duration))"
proof -
  from p obtain j where j: "jobs s r = Some j" and pj: "status j = Pending"
    by (auto simp: statusOf_def)
  show ?thesis
  proof (cases e)
    case (PostGenerate r' prompt' engine' apiKey' duration')
    with new j have "r' \<noteq> r" by auto
    with j pj t PostGenerate show ?thesis by (simp add: postGenerate_def statusOf_def)
  next
    case (CodegenSettles r')
    with j pj t rej show ?thesis
      by (cases "r' = r")
         (auto simp: codegenSettles_def pushLog_def statusOf_def
               split: option.splits task.splits sum.splits)
  next
    case (RunImmediate r')
    with j pj t show ?thesis
      by (cases "r' = r")
         (auto simp: runImmediate_def pushLog_def failJob_def Let_def statusOf_def
               split: option.splits task.splits)
  next
    case (RenderLog r' msg)
    with j pj t show ?thesis
      by (cases "r' = r") (auto simp: renderLog_def pushLog_def statusOf_def split: option.splits)
  next
    case (RenderSettles r' out)
    with j pj t show ?thesis
      by (cases "r' = r")
         (auto simp: renderSettles_def finishJob_def failJob_def statusOf_def
               split: option.splits task.splits sum.splits)
  next
    case (GetLogs r')
    with j pj t show ?thesis by (auto simp: getLogs_def statusOf_def split: option.splits)
  next
    case (Tick i)
    with j pj t show ?thesis by (auto simp: tick_def Let_def statusOf_def split: option.splits)
  next
    case (CloseStream i)
    with j pj t show ?thesis by (auto simp: closeStream_def statusOf_def)
  qed
qed

lemma rejected_stays_pending:
  assumes "statusOf s r = Some Pending"
    and "tasks s r = None \<or> tasks s r = Some (AwaitCodegen prompt engine apiKey duration)"
    and "generateCode env prompt engine apiKey = Inl err"
    and "uuidFresh env s es"
  shows "statusOf (exec env s es) r = Some Pending"
  using assms
proof (induction es arbitrary: s)
  case Nil
  then show ?case by (simp add: exec_def)
next
  case (Cons e es)
  from Cons.prems(4) have n: "newId s e" and f: "uuidFresh env (step env s e) es" by simp_all
  from rejected_step [OF Cons.prems(1,2,3) n]
  have a: "statusOf (step env s e) r = Some Pending"
    and b: "tasks (step env s e) r = None
          \<or> tasks (step env s e) r = Some (AwaitCodegen prompt engine apiKey duration)"
    by simp_all
  from Cons.IH [OF a b Cons.prems(3) f] show ?case by (simp add: exec_Cons)
qed

lemma no_request_same_jobs:
  "\<not> isRequest e \<Longrightarrow> dom (jobs (step env s e)) = dom (jobs s)"
proof (cases e)
  case (CodegenSettles r')
  then show ?thesis
    by (auto simp: codegenSettles_def pushLog_def split: option.splits task.splits sum.splits if_splits)
next
  case (RunImmediate r')
  then show ?thesis
    by (auto simp: runImmediate_def pushLog_def failJob_def Let_def
             split: option.splits task.splits if_splits)
next
  case (RenderLog r' msg)
  then show ?thesis
    by (auto simp: renderLog_def pushLog_def split: option.splits task.splits if_splits)
next
  case (RenderSettles r' out)
  then show ?thesis
    by (auto simp: renderSettles_def finishJob_def failJob_def
             split: option.splits task.splits sum.splits if_splits)
next
  case (GetLogs r')
  then show ?thesis by (simp only: jobs_kept)
next
  case (Tick i)
  then show ?thesis by (simp only: jobs_kept)
next
  case (CloseStream i)
  then show ?thesis by (simp only: jobs_kept)
qed simp

text \<open>
  Claim C2, amended.  A request whose run id is new creates exactly one job, pending, and
  no turn other than a request creates a job.  Along every sequence of turns the statuses
  of the job are some \<open>Pending\<close> followed by some \<open>Done\<close>: the status changes at most
  once and never back.  When the code generator resolves, the job is done once the three
  continuations of the handler have run (the code generator settling, the queued
  callback, the renderer settling with a path or with an error), whatever turns come in
  between.  When the code generator rejects, the job stays pending.
\<close>

theorem job_status_lifecycle:
  assumes new: "jobs s r = None"
    and s1: "s1 = step env s (PostGenerate r prompt engine apiKey duration)"
    and fresh: "uuidFresh env s1 es"
  shows "dom (jobs s1) = insert r (dom (jobs s))
       \<and> statusOf s1 r = Some Pending
       \<and> (\<forall>e. \<not> isRequest e \<longrightarrow> dom (jobs (step env s1 e)) = dom (jobs s1))
       \<and> (\<exists>n m. statuses env s1 r es = replicate n (Some Pending) @ replicate m (Some Done))
       \<and> (\<forall>code a b c out.
             generateCode env prompt engine apiKey = Inr code
           \<and> es = a @ CodegenSettles r # b @ RunImmediate r # c @ [RenderSettles r out]
           \<longrightarrow> statusOf (exec env s1 es) r = Some Done)
       \<and> (\<forall>err. generateCode env prompt engine apiKey = Inl err
           \<longrightarrow> statusOf (exec env s1 es) r = Some Pending)"
proof -
  let ?j = "\<lparr>logs = [''Code generation started''], status = Pending, videoPath = None\<rparr>"
  have j1: "jobs s1 r = Some ?j" and t1: "tasks s1 r = Some (AwaitCodegen prompt engine apiKey duration)"
    by (simp_all add: s1 postGenerate_def)
  have created: "dom (jobs s1) = insert r (dom (jobs s))"
    by (simp add: s1 postGenerate_def)
  have pending: "statusOf s1 r = Some Pending"
    using j1 by (simp add: statusOf_def)
  have others: "\<forall>e. \<not> isRequest e \<longrightarrow> dom (jobs (step env s1 e)) = dom (jobs s1)"
    by (simp add: no_request_same_jobs)
  have shape: "\<exists>n m. statuses env s1 r es = replicate n (Some Pending) @ replicate m (Some Done)"
    using j1 fresh by (intro statuses_shape) simp_all
  have reaches: "statusOf (exec env s1 es) r = Some Done"
    if gen: "generateCode env prompt engine apiKey = Inr code"
      and es: "es = a @ CodegenSettles r # b @ RunImmediate r # c @ [RenderSettles r out]"
    for code a b c out
  proof -
    have res1: "codegenResolves env s1 r" using t1 gen by (simp add: codegenResolves_def)
    have st1: "1 \<le> stage s1 r" using j1 t1 by (simp add: stage_def)
    let ?sa = "exec env s1 a"
    let ?sa' = "step env ?sa (CodegenSettles r)"
    let ?sb = "exec env ?sa' b"
    let ?sb' = "step env ?sb (RunImmediate r)"
    let ?sc = "exec env ?sb' c"
    let ?sc' = "step env ?sc (RenderSettles r out)"
    have ex: "exec env s1 es = ?sc'"
      by (simp add: es exec_append exec_Cons exec_def)
    from fresh have fa: "uuidFresh env s1 a" and fa': "newId ?sa (CodegenSettles r)"
      and fb: "uuidFresh env ?sa' b" and fc: "uuidFresh env ?sb' c"
      by (simp_all add: es uuidFresh_append exec_Cons exec_append)
    from stage_exec [OF res1 st1 fa]
    have ra: "codegenResolves env ?sa r" and sa: "1 \<le> stage ?sa r" using st1 by simp_all
    from stage_step [OF ra sa fa'] have ra': "codegenResolves env ?sa' r" by simp
    have sa': "2 \<le> stage ?sa' r" by (rule stage_codegen [OF ra sa])
    then have "1 \<le> stage ?sa' r" by simp
    from stage_exec [OF ra' this fb] sa' have sb: "2 \<le> stage ?sb r" by simp
    have sb': "3 \<le> stage ?sb' r" by (rule stage_immediate [OF sb])
    have rb': "codegenResolves env ?sb' r"
    proof -
      from stage_exec [OF ra' \<open>1 \<le> stage ?sa' r\<close> fb] have "codegenResolves env ?sb r" by simp
      moreover have "1 \<le> stage ?sb r" using sb by simp
      ultimately show ?thesis using stage_step [of env ?sb r "RunImmediate r"] by simp
    qed
    from sb' have "1 \<le> stage ?sb' r" by simp
    from stage_exec [OF rb' this fc] sb' have sc: "3 \<le> stage ?sc r" by simp
    have "stage ?sc' r = 4" by (rule stage_settle [OF sc])
    then show ?thesis by (simp add: ex stage_done)
  qed
  have stuck: "statusOf (exec env s1 es) r = Some Pending"
    if rej: "generateCode env prompt engine apiKey = Inl err" for err
    by (rule rejected_stays_pending [OF pending _ rej fresh]) (simp add: t1)
  from created pending others shape reaches stuck show ?thesis by blast
qed

lemmas eval_codegen =
  generateCode_def checkResponse_def validateGeneratedCode_def cleanCode_def stripOpenFence_def
  stripCloseFence_def trim_def is_ws_def fence_def backtick_def demoApi_def newline_def

lemmas eval_server =
  exec_def postGenerate_def codegenSettles_def runImmediate_def renderLog_def renderSettles_def
  getLogs_def tick_def closeStream_def pushLog_def failJob_def finishJob_def init_def statusOf_def

text \<open>
  The theorem of C7 at an answer that is prose.
\<close>

theorem p5_code_without_setup_is_rejected_witness:
  "generateCode (demoApi helloText) ''a circle'' ''p5'' ''key'' =
           Inl (Error (''Invalid p5.js generation: must start with '' @ quote @ ''function setup()'' @ quote))
         \<and> responses (step (demoApi helloText)
               (step (demoApi helloText) init (PostGenerate ''run1'' ''a circle'' ''p5'' ''key'' JUndefined))
               (CodegenSettles ''run1'')) ''run1'' =
             Some (Status400 (''Invalid p5.js generation: must start with '' @ quote @ ''function setup()'' @ quote))
         \<and> tasks (step (demoApi helloText)
               (step (demoApi helloText) init (PostGenerate ''run1'' ''a circle'' ''p5'' ''key'' JUndefined))
               (CodegenSettles ''run1'')) ''run1'' = None
         \<and> renderCalls (step (demoApi helloText)
               (step (demoApi helloText) init (PostGenerate ''run1'' ''a circle'' ''p5'' ''key'' JUndefined))
               (CodegenSettles ''run1''))
            = renderCalls (step (demoApi helloText) init (PostGenerate ''run1'' ''a circle'' ''p5'' ''key'' JUndefined))
         \<and> filter (\<lambda>c. call_run c = ''run1'')
              (renderCalls (exec (demoApi helloText) (step (demoApi helloText)
               (step (demoApi helloText) init (PostGenerate ''run1'' ''a circle'' ''p5'' ''key'' JUndefined))
               (CodegenSettles ''run1'')) [RunImmediate ''run1'', RenderSettles ''run1'' (Inr videoFile)]))
             = filter (\<lambda>c. call_run c = ''run1'')
                 (renderCalls (step (demoApi helloText) init (PostGenerate ''run1'' ''a circle'' ''p5'' ''key'' JUndefined)))"
proof (rule p5_code_without_setup_is_rejected)
  show "generateContent (demoApi helloText) ''key'' ''gemini-2.0-flash''
          (join newline [p5SystemPrompt (demoApi helloText), ''Sketch description: '' @ ''a circle''])
        = Inr helloText"
    by (simp add: demoApi_def)
  show "\<not> startsWith (trim (cleanCode helloText)) ''function setup()''"
    by (simp add: helloText_def eval_codegen)
  show "tasks (step (demoApi helloText) init (PostGenerate ''run1'' ''a circle'' ''p5'' ''key'' JUndefined)) ''run1''
        = Some (AwaitCodegen ''a circle'' ''p5'' ''key'' JUndefined)"
    by (simp add: postGenerate_def)
  show "jobs (step (demoApi helloText) init (PostGenerate ''run1'' ''a circle'' ''p5'' ''key'' JUndefined)) ''run1''
        = Some \<lparr>logs = [''Code generation started''], status = Pending, videoPath = None\<rparr>"
    by (simp add: postGenerate_def)
  show "uuidFresh (demoApi helloText) (step (demoApi helloText)
               (step (demoApi helloText) init (PostGenerate ''run1'' ''a circle'' ''p5'' ''key'' JUndefined))
               (CodegenSettles ''run1'')) [RunImmediate ''run1'', RenderSettles ''run1'' (Inr videoFile)]"
    by simp
qed

text \<open>
  Claim C2 as stated fails on the failure path of code generation: a valid request
  (engine \<^verbatim>\<open>p5\<close>) whose generated text fails validation is answered 400, and its job is
  still pending after every continuation that could run.
\<close>

theorem rejected_generation_leaves_job_pending:
  "statusOf (exec (demoApi helloText) init
       [PostGenerate ''run1'' ''a circle'' ''p5'' ''key'' JUndefined,
        CodegenSettles ''run1'',
        RunImmediate ''run1'',
        RenderSettles ''run1'' (Inr videoFile),
        RenderSettles ''run1'' (Inl (Error ''ffmpeg error''))]) ''run1'' = Some Pending
   \<and> responses (exec (demoApi helloText) init
       [PostGenerate ''run1'' ''a circle'' ''p5'' ''key'' JUndefined,
        CodegenSettles ''run1'']) ''run1''
     = Some (Status400 (''Invalid p5.js generation: must start with '' @ quote @ ''function setup()'' @ quote))"
  by (simp add: helloText_def eval_codegen eval_server)

text \<open>
  The theorem of C2 at a p5 request whose generated code is valid.
\<close>

theorem job_status_lifecycle_witness:
  "jobs init ''run1'' = None
   \<and> dom (jobs (step (demoApi setupText) init (PostGenerate ''run1'' ''a circle'' ''p5'' ''key'' JUndefined)))
       = insert ''run1'' (dom (jobs init))
   \<and> statusOf (step (demoApi setupText) init (PostGenerate ''run1'' ''a circle'' ''p5'' ''key'' JUndefined)) ''run1''
       = Some Pending
   \<and> statusOf (exec (demoApi setupText)
         (step (demoApi setupText) init (PostGenerate ''run1'' ''a circle'' ''p5'' ''key'' JUndefined))
         [CodegenSettles ''run1'', GetLogs ''run1'', RunImmediate ''run1'',
          RenderLog ''run1'' ''Captured frame 1/120'', RenderSettles ''run1'' (Inr videoFile)]) ''run1''
       = Some Done"
proof -
  let ?env = "demoApi setupText"
  let ?s1 = "step ?env init (PostGenerate ''run1'' ''a circle'' ''p5'' ''key'' JUndefined)"
  let ?es = "[CodegenSettles ''run1'', GetLogs ''run1'', RunImmediate ''run1'',
          RenderLog ''run1'' ''Captured frame 1/120'', RenderSettles ''run1'' (Inr videoFile)]"
  have n: "jobs init ''run1'' = None" by (simp add: init_def)
  have f: "uuidFresh ?env ?s1 ?es" by simp
  have g: "generateCode ?env ''a circle'' ''p5'' ''key'' = Inr setupText"
    by (simp add: setupText_def eval_codegen)
  have e: "?es = [] @ CodegenSettles ''run1'' # [GetLogs ''run1''] @ RunImmediate ''run1''
                   # [RenderLog ''run1'' ''Captured frame 1/120''] @ [RenderSettles ''run1'' (Inr videoFile)]"
    by simp
  note L = job_status_lifecycle [OF n refl f]
  from L have a: "dom (jobs ?s1) = insert ''run1'' (dom (jobs init))" by (rule conjunct1)
  from L have b: "statusOf ?s1 ''run1'' = Some Pending" by (rule conjunct2 [THEN conjunct1])
  from L have c: "\<forall>code a b c out.
             generateCode ?env ''a circle'' ''p5'' ''key'' = Inr code
           \<and> ?es = a @ CodegenSettles ''run1'' # b @ RunImmediate ''run1'' # c @ [RenderSettles ''run1'' out]
           \<longrightarrow> statusOf (exec ?env ?s1 ?es) ''run1'' = Some Done"
    by (rule conjunct2 [THEN conjunct2, THEN conjunct2, THEN conjunct2, THEN conjunct1])
  from c g e have d: "statusOf (exec ?env ?s1 ?es) ''run1'' = Some Done" by blast
  from n a b d show ?thesis by (intro conjI)
qed

lemma other_turns_keep_written:
  assumes i: "i < length (streams s)" and e: "e \<noteq> Tick i"
  shows "i < length (streams (step env s e))
       \<and> written (streams (step env s e) ! i) = written (streams s ! i)"
proof (cases e)
  case (PostGenerate r' prompt engine apiKey duration)
  with i show ?thesis by (simp only: streams_kept)
next
  case (CodegenSettles r')
  with i show ?thesis by (simp only: streams_kept)
next
  case (RunImmediate r')
  with i show ?thesis by (simp only: streams_kept)
next
  case (RenderLog r' msg)
  with i show ?thesis by (simp only: streams_kept)
next
  case (RenderSettles r' out)
  with i show ?thesis by (simp only: streams_kept)
next
  case (GetLogs r')
  with i show ?thesis by (auto simp: getLogs_def nth_append split: option.splits)
next
  case (Tick k)
  with e have "k \<noteq> i" by simp
  with i Tick show ?thesis by (auto simp: tick_def Let_def split: option.splits)
next
  case (CloseStream k)
  with i show ?thesis by (cases "k = i") (auto simp: closeStream_def)
qed

lemma tick_writes:
  assumes ok: "streamOk s (streams s ! i)" and i: "i < length (streams s)"
    and p: "polling (streams s ! i)" and j: "jobs s (runId (streams s ! i)) = Some j"
  shows "written (streams (step env s (Tick i)) ! i)
           = map Data (logs j) @ (if status j = Done then [DoneEvent (videoPath j)] else [])
       \<and> ended (streams (step env s (Tick i)) ! i) = (status j = Done)"
proof -
  from ok p j have ne: "\<not> ended (streams s ! i)" by (auto simp: streamOk_def)
  note w = streamOk_tick(3) [OF ok p j]
  have en: "ended (sendLogs (logs j) (streams s ! i)) = ended (streams s ! i)"
    by (simp add: sendLogs_eq)
  show ?thesis
    using i p j w en ne by (simp add: tick_def Let_def)
qed

text \<open>
  Claim C9, amended.  In every state the server reaches, a connection of the log stream
  has written exactly the first \<open>lastIndex\<close> lines of its job, each once and in the
  order they were appended, followed by the final event if it has ended; it ends only
  when its job is done.  A tick of a polling connection writes all the lines appended so
  far and, when the job is done, the final event with the video path of the job, and
  ends the connection.  The log of a job only grows at its end, a job that is done stays
  done with the same video path, and no turn but the tick of the connection writes to
  it.  So every line appended up to the tick that finds the job done is delivered once
  and in order, and the final event follows them.
\<close>

theorem log_stream_delivers_in_order:
  assumes fresh: "uuidFresh env init es"
    and s: "s = exec env init es"
    and i: "i < length (streams s)"
    and st: "st = streams s ! i"
  shows "\<exists>j. jobs s (runId st) = Some j
       \<and> lastIndex st \<le> length (logs j)
       \<and> written st = map Data (take (lastIndex st) (logs j))
                        @ (if ended st then [DoneEvent (videoPath j)] else [])
       \<and> (ended st \<longrightarrow> status j = Done \<and> \<not> polling st)
       \<and> (polling st \<longrightarrow>
            written (streams (step env s (Tick i)) ! i)
              = map Data (logs j) @ (if status j = Done then [DoneEvent (videoPath j)] else [])
          \<and> ended (streams (step env s (Tick i)) ! i) = (status j = Done))
       \<and> (\<forall>e. newId s e \<longrightarrow>
            (\<exists>j' ys. jobs (step env s e) (runId st) = Some j' \<and> logs j' = logs j @ ys
                    \<and> (status j = Done \<longrightarrow> status j' = Done \<and> videoPath j' = videoPath j)))
       \<and> (\<forall>e. e \<noteq> Tick i \<longrightarrow>
            i < length (streams (step env s e))
          \<and> written (streams (step env s e) ! i) = written st)"
proof -
  have inv: "serverInv s"
    unfolding s by (rule serverInv_exec [OF serverInv_init fresh])
  then have ji: "jobInv s" and ok: "streamOk s st"
    using i st by (simp_all add: serverInv_def)
  from ok obtain j where j: "jobs s (runId st) = Some j"
    by (auto simp: streamOk_def split: option.splits)
  from ok j have le: "lastIndex st \<le> length (logs j)"
    and w: "written st = map Data (take (lastIndex st) (logs j))
                        @ (if ended st then [DoneEvent (videoPath j)] else [])"
    and en: "ended st \<longrightarrow> status j = Done \<and> \<not> polling st"
    by (auto simp: streamOk_def)
  have tk: "polling st \<longrightarrow>
            written (streams (step env s (Tick i)) ! i)
              = map Data (logs j) @ (if status j = Done then [DoneEvent (videoPath j)] else [])
          \<and> ended (streams (step env s (Tick i)) ! i) = (status j = Done)"
    using tick_writes [of s i j env] ok i j st by blast
  have ev: "\<forall>e. newId s e \<longrightarrow>
            (\<exists>j' ys. jobs (step env s e) (runId st) = Some j' \<and> logs j' = logs j @ ys
                    \<and> (status j = Done \<longrightarrow> status j' = Done \<and> videoPath j' = videoPath j))"
    using job_evolves [OF ji _ j] by blast
  have ot: "\<forall>e. e \<noteq> Tick i \<longrightarrow>
            i < length (streams (step env s e))
          \<and> written (streams (step env s e) ! i) = written st"
    using other_turns_keep_written [OF i] st by blast
  from j le w en tk ev ot show ?thesis by blast
qed

text \<open>
  The theorem of C9 at a client that connects right after the request and polls once
  while the renderer runs and once after it has settled.
\<close>

theorem log_stream_delivers_in_order_witness:
  "written (streams (step (demoApi setupText)
       (exec (demoApi setupText) init
          [PostGenerate ''run1'' ''a circle'' ''p5'' ''key'' JUndefined, GetLogs ''run1'',
           CodegenSettles ''run1'', RunImmediate ''run1'',
           RenderLog ''run1'' ''Captured frame 1/120'', Tick 0,
           RenderSettles ''run1'' (Inr videoFile)])
       (Tick 0)) ! 0)
     = [Data ''Code generation started'', Data ''Code generation completed'',
        Data ''Rendering started using p5'', Data ''Captured frame 1/120'',
        Data ''Rendering complete'', DoneEvent (Some ''/videos/animation.mp4'')]
   \<and> written (streams (exec (demoApi setupText) init
          [PostGenerate ''run1'' ''a circle'' ''p5'' ''key'' JUndefined, GetLogs ''run1'',
           CodegenSettles ''run1'', RunImmediate ''run1'',
           RenderLog ''run1'' ''Captured frame 1/120'', Tick 0,
           RenderSettles ''run1'' (Inr videoFile)]) ! 0)
     = [Data ''Code generation started'', Data ''Code generation completed'',
        Data ''Rendering started using p5'', Data ''Captured frame 1/120'']"
proof -
  let ?env = "demoApi setupText"
  let ?es = "[PostGenerate ''run1'' ''a circle'' ''p5'' ''key'' JUndefined, GetLogs ''run1'',
           CodegenSettles ''run1'', RunImmediate ''run1'',
           RenderLog ''run1'' ''Captured frame 1/120'', Tick 0,
           RenderSettles ''run1'' (Inr videoFile)]"
  let ?s = "exec ?env init ?es"
  let ?st = "streams ?s ! 0"
  let ?job = "\<lparr>logs = [''Code generation started'', ''Code generation completed'',
                 ''Rendering started using p5'', ''Captured frame 1/120'', ''Rendering complete''],
             status = Done, videoPath = Some ''/videos/animation.mp4''\<rparr>"
  have state: "?s = \<lparr>jobs = [''run1'' \<mapsto> ?job], tasks = Map.empty,
                     responses = [''run1'' \<mapsto> JsonRunId ''run1''],
                     renderCalls = [P5Call setupText ''run1'' JUndefined],
                     streams = [\<lparr>runId = ''run1'', lastIndex = 4,
                        written = [Data ''Code generation started'', Data ''Code generation completed'',
                                   Data ''Rendering started using p5'', Data ''Captured frame 1/120''],
                        polling = True, ended = False\<rparr>]\<rparr>"
    by (simp add: eval_server eval_codegen setupText_def videoFile_def sendLogs_eq basename_def)
  have f: "uuidFresh ?env init ?es" by (simp add: init_def)
  have i: "0 < length (streams ?s)" by (simp add: state)
  from log_stream_delivers_in_order [OF f refl i refl] obtain j where
    j: "jobs ?s (runId ?st) = Some j"
    and w: "written ?st = map Data (take (lastIndex ?st) (logs j))
                        @ (if ended ?st then [DoneEvent (videoPath j)] else [])"
    and t: "polling ?st \<longrightarrow>
            written (streams (step ?env ?s (Tick 0)) ! 0)
              = map Data (logs j) @ (if status j = Done then [DoneEvent (videoPath j)] else [])"
    by blast
  have jj: "j = ?job" using j by (simp add: state)
  have p: "polling ?st" by (simp add: state)
  have a: "written (streams (step ?env ?s (Tick 0)) ! 0)
     = [Data ''Code generation started'', Data ''Code generation completed'',
        Data ''Rendering started using p5'', Data ''Captured frame 1/120'',
        Data ''Rendering complete'', DoneEvent (Some ''/videos/animation.mp4'')]"
    using t p by (simp add: jj)
  have b: "written ?st
     = [Data ''Code generation started'', Data ''Code generation completed'',
        Data ''Rendering started using p5'', Data ''Captured frame 1/120'']"
    using w by (simp add: jj state)
  from a b show ?thesis by (rule conjI)
qed

section \<open>Properties of the Manim renderer\<close>

lemma rm_removes:
  "p \<noteq> [] \<Longrightarrow> lookup (rmSync n p) p = None"
  "lookupIn (rmIn es x xs) x xs = None"
proof (induction n p and es x xs rule: rmSync_rmIn.induct)
  case (5 y n es x xs)
  then show ?case by (cases "xs = []") auto
qed auto

lemma rmSync_not_exists: "\<not> existsSync (rmSync fs (d @ [x])) (d @ [x])"
  by (simp add: existsSync_def rm_removes)

lemmas eval_fs =
  existsSync_def path_str_def mediaRoot_def partialOutDir_def silentManim_def
  generateWithManim_def onClose_def closeZero_def closeNonzero_def noVideo_def
  findManimVideo_def checkForPartialFiles_def commonLocations_def copyFileSync_def
  processingError_def Let_def

text \<open>
  Claim C1 fails on the code.  Manim exits with code zero and writes nothing: the
  renderer rejects with the error of a missing video, and the working directory, which
  the renderer made itself, still exists after the call.
\<close>

theorem silent_manim_failure_keeps_directory:
  "settled (generateWithManim silentManim (Dir []) ''class GeneratedScene(Scene): pass'' ''run1'')
     = Inl (Error ''Could not find GeneratedScene.mp4 in /app/media/videos/run1. Manim may have failed silently.'')
   \<and> existsSync (fsAfter (generateWithManim silentManim (Dir []) ''class GeneratedScene(Scene): pass'' ''run1''))
        [''app'', ''media'', ''videos'', ''run1'']"
  by (simp add: eval_fs)

text \<open>
  Claim C6.  When the process closes with exit code zero and the canonical video path
  exists, the renderer resolves to that path.  Its calls on the file system are the two
  existence checks and the removal of the working directory: it lists no directory, asks
  for no status, and checks none of the common locations.
\<close>

theorem existing_video_short_circuits:
  assumes "existsSync fs (media @ [run @ ''.mp4''])"
  shows "settled (onClose media run (Some 0) stderrData fs) = Inr (path_str (media @ [run @ ''.mp4'']))
       \<and> trace (onClose media run (Some 0) stderrData fs)
           = [Log ''Manim rendering completed successfully'',
              Exists (media @ [run @ ''.mp4'']),
              Log (''Video already exists at: '' @ path_str (media @ [run @ ''.mp4''])),
              Exists (media @ [run])]
             @ (if existsSync fs (media @ [run]) then [Rm (media @ [run])] else [])
       \<and> (\<forall>p. Readdir p \<notin> set (trace (onClose media run (Some 0) stderrData fs))
              \<and> Stat p \<notin> set (trace (onClose media run (Some 0) stderrData fs)))
       \<and> (\<forall>l \<in> set (commonLocations (media @ [run])).
              Exists l \<notin> set (trace (onClose media run (Some 0) stderrData fs)))
       \<and> \<not> existsSync (fsAfter (onClose media run (Some 0) stderrData fs)) (media @ [run])"
proof -
  let ?r = "onClose media run (Some 0) stderrData fs"
  have t: "trace ?r
           = [Log ''Manim rendering completed successfully'',
              Exists (media @ [run @ ''.mp4'']),
              Log (''Video already exists at: '' @ path_str (media @ [run @ ''.mp4''])),
              Exists (media @ [run])]
             @ (if existsSync fs (media @ [run]) then [Rm (media @ [run])] else [])"
    and s: "settled ?r = Inr (path_str (media @ [run @ ''.mp4'']))"
    and f: "fsAfter ?r = (if existsSync fs (media @ [run]) then rmSync fs (media @ [run]) else fs)"
    using assms by (simp_all add: onClose_def closeZero_def Let_def)
  have gone: "\<not> existsSync (fsAfter ?r) (media @ [run])"
    unfolding f using rmSync_not_exists [of fs media run] by simp
  have noscan: "\<forall>p. Readdir p \<notin> set (trace ?r) \<and> Stat p \<notin> set (trace ?r)"
    unfolding t by simp
  have nocommon: "\<forall>l \<in> set (commonLocations (media @ [run])). Exists l \<notin> set (trace ?r)"
    unfolding t by (auto simp: commonLocations_def)
  from s t noscan nocommon gone show ?thesis by blast
qed

text \<open>
  The theorem of C6 at a media root that holds the video of the run and a working
  directory with partial files.
\<close>

theorem existing_video_short_circuits_witness:
  "existsSync (mediaRoot [(''run1.mp4'', File ''video''), (''run1'', partialOutDir)])
       ([''app'', ''media'', ''videos''] @ [''run1'' @ ''.mp4''])
   \<and> settled (onClose [''app'', ''media'', ''videos''] ''run1'' (Some 0) ''''
        (mediaRoot [(''run1.mp4'', File ''video''), (''run1'', partialOutDir)]))
       = Inr ''/app/media/videos/run1.mp4''
   \<and> trace (onClose [''app'', ''media'', ''videos''] ''run1'' (Some 0) ''''
        (mediaRoot [(''run1.mp4'', File ''video''), (''run1'', partialOutDir)]))
       = [Log ''Manim rendering completed successfully'',
          Exists [''app'', ''media'', ''videos'', ''run1.mp4''],
          Log ''Video already exists at: /app/media/videos/run1.mp4'',
          Exists [''app'', ''media'', ''videos'', ''run1''],
          Rm [''app'', ''media'', ''videos'', ''run1'']]
   \<and> fsAfter (onClose [''app'', ''media'', ''videos''] ''run1'' (Some 0) ''''
        (mediaRoot [(''run1.mp4'', File ''video''), (''run1'', partialOutDir)]))
       = mediaRoot [(''run1.mp4'', File ''video'')]"
proof -
  let ?fs = "mediaRoot [(''run1.mp4'', File ''video''), (''run1'', partialOutDir)]"
  let ?media = "[''app'', ''media'', ''videos'']"
  have h: "existsSync ?fs (?media @ [''run1'' @ ''.mp4''])"
    by (simp add: existsSync_def mediaRoot_def)
  have o: "existsSync ?fs (?media @ [''run1''])"
    by (simp add: existsSync_def mediaRoot_def)
  have f: "fsAfter (onClose ?media ''run1'' (Some 0) '''' ?fs) = mediaRoot [(''run1.mp4'', File ''video'')]"
    by (simp add: eval_fs)
  from existing_video_short_circuits [OF h, of "''''"] h o f show ?thesis
    by (simp add: path_str_def)
qed






lemma nonzero_exit_removes_directory:
  "exitCode \<noteq> Some 0 \<Longrightarrow>
     \<not> existsSync (fsAfter (onClose media run exitCode stderrData fs)) (media @ [run])"
  using rmSync_not_exists [of fs media run]
  by (simp add: onClose_def closeNonzero_def Let_def)

lemma noVideo_resolved_removes_directory:
  "settled (noVideo media run fs t) = Inr p \<Longrightarrow>
     \<not> existsSync (fsAfter (noVideo media run fs t)) (media @ [run])"
  using rmSync_not_exists [of _ media run]
  by (auto simp: noVideo_def Let_def processingError_def
           split: prod.splits sum.splits if_splits option.splits)

lemma resolved_removes_directory:
  assumes "settled (onClose media run exitCode stderrData fs) = Inr p"
  shows "\<not> existsSync (fsAfter (onClose media run exitCode stderrData fs)) (media @ [run])"
proof (cases "exitCode = Some 0")
  case False
  then show ?thesis by (rule nonzero_exit_removes_directory)
next
  case True
  show ?thesis
    using assms True rmSync_not_exists [of _ media run] noVideo_resolved_removes_directory [of media run fs _ p]
    by (auto simp: onClose_def closeZero_def Let_def processingError_def
             split: prod.splits sum.splits if_splits option.splits)
qed

lemma failed_spawn_is_followed_by_close:
  "generateWithManim brokenManim (Dir []) ''class GeneratedScene(Scene): pass'' ''run1''
     = \<lparr>fsAfter = Dir [(''app'', Dir [(''scripts'', Dir [(''run1.py'', File ''class GeneratedScene(Scene): pass'')]),
                                      (''media'', Dir [(''videos'', Dir [])])])],
        trace = [Exists [''app'', ''scripts''], Mkdir [''app'', ''scripts''],
                 Exists [''app'', ''media'', ''videos''], Mkdir [''app'', ''media'', ''videos''],
                 Exists [''app'', ''media'', ''videos'', ''run1''],
                 Mkdir [''app'', ''media'', ''videos'', ''run1''],
                 Write [''app'', ''scripts'', ''run1.py''],
                 Log ''Manim script written'', Log ''Manim executable found'',
                 Log ''Starting Manim rendering...'',
                 Spawn ''/usr/bin/manim''
                   [''-qk'', ''--disable_caching'', ''/app/scripts/run1.py'',
                    ''GeneratedScene'', ''-o'', ''/app/media/videos/run1''],
                 Log ''Process error: spawn /usr/bin/manim ENOENT''],
        settled = Inl (Error ''Failed to start Manim: spawn /usr/bin/manim ENOENT''),
        afterSettle = [Log ''Rendering failed with exit code -2: Manim rendering failed'',
                       Log ''Full error output:'', Log [],
                       Exists [''app'', ''media'', ''videos'', ''run1''],
                       Rm [''app'', ''media'', ''videos'', ''run1'']]\<rparr>"
  by code_simp

text \<open>
  Claim C9 as stated fails for the lines that a renderer logs after its promise has
  settled.  Manim cannot be started: the renderer rejects from its \<^verbatim>\<open>error\<close> handler,
  the handler of the request marks the job done, the next tick of the connected client
  writes the final event and ends the stream, and the three lines that the \<^verbatim>\<open>close\<close>
  handler of the renderer logs afterwards are in the log of the job but never written to
  the stream.
\<close>

theorem lines_logged_after_done_are_not_streamed:
  "map_option logs (jobs (exec (demoApi ''class GeneratedScene(Scene): pass'') init
       ([PostGenerate ''run1'' ''a scene'' ''manim'' ''key'' JUndefined, GetLogs ''run1'',
         CodegenSettles ''run1'', RunImmediate ''run1'']
        @ map (RenderLog ''run1'') (logLines (trace
            (generateWithManim brokenManim (Dir []) ''class GeneratedScene(Scene): pass'' ''run1'')))
        @ [RenderSettles ''run1'' (settled
            (generateWithManim brokenManim (Dir []) ''class GeneratedScene(Scene): pass'' ''run1'')),
           Tick 0]
        @ map (RenderLog ''run1'') (logLines (afterSettle
            (generateWithManim brokenManim (Dir []) ''class GeneratedScene(Scene): pass'' ''run1''))))) ''run1'')
     = Some [''Code generation started'', ''Code generation completed'',
             ''Rendering started using manim'', ''Manim script written'',
             ''Manim executable found'', ''Starting Manim rendering...'',
             ''Process error: spawn /usr/bin/manim ENOENT'',
             ''Error: Failed to start Manim: spawn /usr/bin/manim ENOENT'',
             ''Rendering failed with exit code -2: Manim rendering failed'',
             ''Full error output:'', []]
   \<and> streams (exec (demoApi ''class GeneratedScene(Scene): pass'') init
       ([PostGenerate ''run1'' ''a scene'' ''manim'' ''key'' JUndefined, GetLogs ''run1'',
         CodegenSettles ''run1'', RunImmediate ''run1'']
        @ map (RenderLog ''run1'') (logLines (trace
            (generateWithManim brokenManim (Dir []) ''class GeneratedScene(Scene): pass'' ''run1'')))
        @ [RenderSettles ''run1'' (settled
            (generateWithManim brokenManim (Dir []) ''class GeneratedScene(Scene): pass'' ''run1'')),
           Tick 0]
        @ map (RenderLog ''run1'') (logLines (afterSettle
            (generateWithManim brokenManim (Dir []) ''class GeneratedScene(Scene): pass'' ''run1'')))))
     = [\<lparr>runId = ''run1'', lastIndex = 8,
         written = [Data ''Code generation started'', Data ''Code generation completed'',
                    Data ''Rendering started using manim'', Data ''Manim script written'',
                    Data ''Manim executable found'', Data ''Starting Manim rendering...'',
                    Data ''Process error: spawn /usr/bin/manim ENOENT'',
                    Data ''Error: Failed to start Manim: spawn /usr/bin/manim ENOENT'',
                    DoneEvent None],
         polling = False, ended = True\<rparr>]"
  by code_simp

section \<open>Properties of the p5 renderer\<close>




















section \<open>Properties of the tool detectors\<close>








lemma detectManim_override:
  assumes "\<not> truthy cache" "envVar h ''MANIM_PATH'' = Some p" "p \<noteq> []" "accessX h p"
  shows "detectManim h cache = (Inr p, Some p)"
  using assms by (simp add: detectManim_def)

lemma detectChrome_override:
  assumes "\<not> truthy cache" "envVar h ''CHROME_PATH'' = Some p" "p \<noteq> []" "accessX h p"
  shows "detectChrome h cache = (Inr p, Some p)" "detectChromeElectron h cache = (Inr p, Some p)"
  using assms by (simp_all add: detectChrome_def detectChromeElectron_def)

text \<open>
  Claim C8, amended.  When no path is cached and the environment variable of a detector
  names an executable path, the detector returns exactly that path and caches it,
  whatever the PATH lookup, the installations of the launcher, the platform paths and the
  registry would give.
\<close>

theorem env_override_takes_precedence:
  assumes "\<not> truthy cache" and "p \<noteq> []" and "accessX h p"
  shows "(envVar h ''MANIM_PATH'' = Some p \<longrightarrow> detectManim h cache = (Inr p, Some p))
       \<and> (envVar h ''CHROME_PATH'' = Some p \<longrightarrow>
            detectChrome h cache = (Inr p, Some p)
          \<and> detectChromeElectron h cache = (Inr p, Some p))"
  using assms detectManim_override detectChrome_override by blast

text \<open>
  The theorem of C8 at a host where \<^verbatim>\<open>CHROME_PATH\<close> is executable and
  \<^verbatim>\<open>google-chrome\<close> is on the PATH as well.
\<close>

theorem env_override_takes_precedence_witness:
  "\<not> truthy None \<and> accessX (linuxHost [''/opt/chrome'', ''/opt/manim'', ''/usr/bin/google-chrome'']) ''/opt/chrome''
   \<and> whichSync (linuxHost [''/opt/chrome'', ''/opt/manim'', ''/usr/bin/google-chrome'']) ''google-chrome''
       = Some ''/usr/bin/google-chrome''
   \<and> detectChrome (linuxHost [''/opt/chrome'', ''/opt/manim'', ''/usr/bin/google-chrome'']) None
       = (Inr ''/opt/chrome'', Some ''/opt/chrome'')
   \<and> detectChromeElectron (linuxHost [''/opt/chrome'', ''/opt/manim'', ''/usr/bin/google-chrome'']) None
       = (Inr ''/opt/chrome'', Some ''/opt/chrome'')"
proof -
  let ?h = "linuxHost [''/opt/chrome'', ''/opt/manim'', ''/usr/bin/google-chrome'']"
  have a: "\<not> truthy None" by simp
  have b: "''/opt/chrome'' \<noteq> []" by simp
  have c: "accessX ?h ''/opt/chrome''" by (simp add: linuxHost_def)
  have d: "envVar ?h ''CHROME_PATH'' = Some ''/opt/chrome''" by (simp add: linuxHost_def)
  have w: "whichSync ?h ''google-chrome'' = Some ''/usr/bin/google-chrome''" by (simp add: linuxHost_def)
  from env_override_takes_precedence [OF a b c] d a c w show ?thesis by blast
qed

text \<open>
  Claim C8 as stated fails once a path is cached.  A first call, made while the file of
  the environment variable cannot be executed, finds the tool on the PATH and caches what
  it found; a later call, made when the file of the environment variable can be executed,
  returns the cached path and not the one the variable names.
\<close>

theorem cached_path_beats_env_override:
  "envVar (linuxHost [''/opt/chrome'', ''/usr/bin/google-chrome'']) ''CHROME_PATH'' = Some ''/opt/chrome''
   \<and> accessX (linuxHost [''/opt/chrome'', ''/usr/bin/google-chrome'']) ''/opt/chrome''
   \<and> snd (detectChrome (linuxHost [''/usr/bin/google-chrome'']) None) = Some ''/usr/bin/google-chrome''
   \<and> detectChrome (linuxHost [''/opt/chrome'', ''/usr/bin/google-chrome''])
        (snd (detectChrome (linuxHost [''/usr/bin/google-chrome'']) None))
       = (Inr ''/usr/bin/google-chrome'', Some ''/usr/bin/google-chrome'')
   \<and> detectChromeElectron (linuxHost [''/opt/chrome'', ''/usr/bin/google-chrome''])
        (snd (detectChromeElectron (linuxHost [''/usr/bin/google-chrome'']) None))
       = (Inr ''/usr/bin/google-chrome'', Some ''/usr/bin/google-chrome'')
   \<and> envVar (linuxHost [''/opt/manim'']) ''MANIM_PATH'' = Some ''/opt/manim''
   \<and> accessX (linuxHost [''/opt/manim'']) ''/opt/manim''
   \<and> detectManim (linuxHost [''/opt/manim'']) (snd (detectManim (linuxHost []) None))
       = (Inr ''/usr/bin/manim'', Some ''/usr/bin/manim'')"
  by (simp add: linuxHost_def detectChrome_def detectChromeElectron_def detectManim_def
        launcherStep_def)



end
